theory Spec2Isabelle
  imports Main "HOL-Library.AList"
begin

section \<open>Plain JavaScript values\<close>

text \<open>
  Attribute bags, server resources and request payloads are plain JavaScript structures.
  An object is kept as the list of its own properties in insertion order; an own
  property is read by key, and a missing one reads as \<open>undefined\<close>. Keys that look like array
  indices, which JavaScript enumerates first, are taken not to occur. Numbers are taken to be
  integers (identifiers and counters), so \<open>NaN\<close> and fractions are outside the model.
\<close>

datatype jsval =
    JUndefined
  | JNull
  | JBool bool
  | JNum int
  | JStr string
  | JArr "jsval list"
  | JObj "(string \<times> jsval) list"
  | JBuiltin string

type_synonym obj = "(string \<times> jsval) list"

definition keys :: "obj \<Rightarrow> string list" where
  "keys kvs = map fst kvs"

definition getProp :: "obj \<Rightarrow> string \<Rightarrow> jsval" where
  "getProp kvs k = (case map_of kvs k of Some v \<Rightarrow> v | None \<Rightarrow> JUndefined)"

text \<open>
  Reading \<open>o[key]\<close> on a plain object gives the own property, or else what the object
  inherits from \<open>Object.prototype\<close>: for \<open>__proto__\<close> that prototype itself, for the other
  member names a built-in function. \<open>JBuiltin key\<close> stands for the built-in that the key
  reaches; built-ins are compared by reference, have no enumerable own properties, and
  only \<open>Object.prototype\<close> is an object (the others are functions). \<open>getProp\<close> is the
  read of an own property (a key taken from \<open>Object.keys\<close>, an entry of a map).
  Assigning \<open>o[key] = v\<close> creates or overwrites an own property, except for \<open>__proto__\<close>:
  that assignment goes to the prototype's setter and creates no own property (the change
  of prototype it makes when \<open>v\<close> is an object is not tracked).
\<close>

definition objectPrototypeKeys :: "string list" where
  "objectPrototypeKeys =
     [''__proto__'', ''constructor'', ''hasOwnProperty'', ''isPrototypeOf'',
      ''propertyIsEnumerable'', ''toLocaleString'', ''toString'', ''valueOf'',
      ''__defineGetter__'', ''__defineSetter__'', ''__lookupGetter__'', ''__lookupSetter__'']"

definition readProp :: "obj \<Rightarrow> string \<Rightarrow> jsval" where
  "readProp kvs k =
     (case map_of kvs k of
        Some v \<Rightarrow> v
      | None \<Rightarrow> if k \<in> set objectPrototypeKeys then JBuiltin k else JUndefined)"

definition setProp :: "string \<Rightarrow> jsval \<Rightarrow> obj \<Rightarrow> obj" where
  "setProp k v kvs = (if k = ''__proto__'' then kvs else AList.update k v kvs)"

definition ownProps :: "jsval \<Rightarrow> obj" where
  "ownProps v = (case v of JObj kvs \<Rightarrow> kvs | _ \<Rightarrow> [])"

text \<open>A property value is a component of its object; the recursive functions below
  descend through property reads, and their termination rests on this.\<close>

lemma getProp_in_set: "getProp a k = JUndefined \<or> (k, getProp a k) \<in> set a"
  by (auto simp: getProp_def split: option.splits dest: map_of_SomeD)

lemma size_getProp_le:
  "size (getProp a k) \<le> size_list (size_prod (\<lambda>_. 0) size) a"
proof -
  consider "getProp a k = JUndefined" | "(k, getProp a k) \<in> set a"
    using getProp_in_set by blast
  then show ?thesis
  proof cases
    case 1 then show ?thesis by simp
  next
    case 2 then show ?thesis
      by (rule size_list_estimation') simp
  qed
qed

lemma size_getProp_less: "size (getProp a k) < size (JObj a)"
  using size_getProp_le [of a k] by simp

lemma size_own: "map_of a k = Some v \<Longrightarrow> size v + 2 \<le> size (JObj a)"
proof -
  assume "map_of a k = Some v"
  then have "(k, v) \<in> set a" by (rule map_of_SomeD)
  then have "size v + 1 \<le> size_list (size_prod (\<lambda>_. 0) size) a"
    by (rule size_list_estimation') simp
  then show ?thesis by simp
qed

lemma size_ownProps_key:
  "k \<in> set (keys (ownProps v)) \<Longrightarrow> size (getProp (ownProps v) k) + 2 \<le> size v"
proof -
  assume k: "k \<in> set (keys (ownProps v))"
  then obtain kvs where v: "v = JObj kvs" by (cases v) (simp_all add: ownProps_def keys_def)
  with k obtain w where w: "map_of kvs k = Some w"
    by (auto simp: ownProps_def keys_def dest!: weak_map_of_SomeI)
  then show ?thesis using size_own [OF w] v by (simp add: ownProps_def getProp_def)
qed

lemma size_readProp_le: "size (readProp a k) + 2 \<le> size (JObj a) \<or> size (readProp a k) = 0"
  by (auto simp: readProp_def split: option.splits dest: size_own)

function (sequential) isEqual :: "jsval \<Rightarrow> jsval \<Rightarrow> bool" where
  "isEqual (JObj a) (JObj b) =
     (length (keys a) = length (keys b) \<and>
      (\<forall>k \<in> set (keys a). k \<in> set (keys b) \<and> isEqual (getProp a k) (getProp b k)))"
| "isEqual (JArr xs) (JArr ys) =
     (length xs = length ys \<and> (\<forall>i \<in> set [0..<length xs]. isEqual (xs ! i) (ys ! i)))"
| "isEqual (JBuiltin k) (JObj b) = (k = ''__proto__'' \<and> b = [])"
| "isEqual (JObj a) (JBuiltin k) = (k = ''__proto__'' \<and> a = [])"
| "isEqual x y = (x = y)"
  by pat_completeness auto
termination
proof (relation "measure (\<lambda>(x, y). size x)", goal_cases)
  case 1 show ?case by simp
next
  case (2 a b k) show ?case using size_getProp_less [of a k] by simp
next
  case (3 xs ys i)
  then have "xs ! i \<in> set xs" by simp
  then have "size (xs ! i) \<le> size_list size xs" by (rule size_list_estimation') simp
  then show ?case by simp
qed

text \<open>
  The library functions the source imports, modelled from their documented behaviour:
  lodash \<open>uniq\<close> and \<open>union\<close> (unique values in order of first occurrence), \<open>isPlainObject\<close>
  (also true of \<open>Object.prototype\<close>, whose prototype is null), \<open>isEqual\<close> (above: two
  objects are equal when they have the same number of own keys and every key of the first
  is an own key of the second holding an equal value; arrays are compared element by
  element; \<open>Object.prototype\<close> equals an object without keys), and \<open>deepmerge\<close> with its
  \<open>arrayMerge\<close> option.
\<close>

definition uniq :: "'a list \<Rightarrow> 'a list" where
  "uniq xs = rev (remdups (rev xs))"

definition union_list :: "string list \<Rightarrow> string list \<Rightarrow> string list" where
  "union_list xs ys = uniq (xs @ ys)"

definition isPlainObject :: "jsval \<Rightarrow> bool" where
  "isPlainObject v =
     (case v of JObj _ \<Rightarrow> True | JBuiltin k \<Rightarrow> k = ''__proto__'' | _ \<Rightarrow> False)"

text \<open>
  \<^verbatim>\<open>getChangedAttributesBetween\<close> and \<^verbatim>\<open>getChangesBetween\<close> of the Model source file:
  \<open>source[key]\<close> and \<open>target[key]\<close> are reads through the prototype chain, and the
  \<^verbatim>\<open>forEach\<close> assigns \<open>changes[key]\<close> for each changed key in turn. Only under the key
  \<open>__proto__\<close> can a read give \<open>Object.prototype\<close>; what the recursion computes there is
  assigned to \<open>changes.__proto__\<close> and so leaves no property.
\<close>

definition getChangedAttributesBetween :: "obj \<Rightarrow> obj \<Rightarrow> string list" where
  "getChangedAttributesBetween source target =
     filter (\<lambda>key. \<not> isEqual (readProp source key) (readProp target key))
       (union_list (keys source) (keys target))"

lemma set_uniq: "set (uniq xs) = set xs"
  by (simp add: uniq_def)

lemma changed_subset:
  "key \<in> set (getChangedAttributesBetween source target) \<Longrightarrow>
   key \<in> set (keys source) \<or> key \<in> set (keys target)"
  by (auto simp: getChangedAttributesBetween_def union_list_def set_uniq)

lemma size_ownProps_readProp:
  "size (JObj (ownProps (readProp a k))) \<le> size (JObj a)"
  "k \<in> set (keys a) \<Longrightarrow> size (JObj (ownProps (readProp a k))) < size (JObj a)"
proof -
  show "size (JObj (ownProps (readProp a k))) \<le> size (JObj a)"
  proof (cases "map_of a k")
    case None then show ?thesis by (simp add: readProp_def ownProps_def)
  next
    case (Some v)
    then show ?thesis using size_own [OF Some]
      by (cases v) (simp_all add: readProp_def ownProps_def)
  qed
  show "size (JObj (ownProps (readProp a k))) < size (JObj a)" if "k \<in> set (keys a)"
  proof -
    from that obtain v where v: "map_of a k = Some v"
      by (auto simp: keys_def dest!: weak_map_of_SomeI)
    then show ?thesis using size_own [OF v]
      by (cases v) (simp_all add: readProp_def ownProps_def)
  qed
qed

function getChangesBetween :: "obj \<Rightarrow> obj \<Rightarrow> obj" where
  "getChangesBetween source target =
     fold (\<lambda>key changes.
             setProp key
               (if isPlainObject (readProp source key) \<and> isPlainObject (readProp target key)
                then JObj (getChangesBetween (ownProps (readProp source key))
                             (ownProps (readProp target key)))
                else readProp target key)
               changes)
       (getChangedAttributesBetween source target) []"
  by pat_completeness auto
termination
proof (relation "measure (\<lambda>(s, t). size (JObj s) + size (JObj t))", goal_cases)
  case 1 show ?case by simp
next
  case (2 source target key)
  from changed_subset [OF 2(1)] show ?case
  proof
    assume "key \<in> set (keys source)"
    then show ?thesis
      using size_ownProps_readProp(2) [of key source] size_ownProps_readProp(1) [of target key]
      by simp
  next
    assume "key \<in> set (keys target)"
    then show ?thesis
      using size_ownProps_readProp(2) [of key target] size_ownProps_readProp(1) [of source key]
      by simp
  qed
qed


text \<open>
  \<open>deepmerge(target, source, {arrayMerge: dontMergeArrays})\<close>, with the library's default
  \<open>clone\<close>: when exactly one side is an array the result is a clone of the source; two
  arrays go to \<open>arrayMerge\<close>; otherwise \<open>mergeObject\<close> assigns to a fresh object a clone of
  every property of a mergeable target and then, for every key of the source, either a
  clone of the source's value (when that is not a mergeable object, or \<open>target[key]\<close> is
  falsy) or the recursive merge. \<open>cloneUnlessOtherwiseSpecified\<close> merges a mergeable value
  into an empty target of its kind. \<open>readTarget\<close> is \<open>target[key]\<close>: through the prototype
  chain when the target is a plain object; the properties of primitives and of built-ins
  are not followed (read as undefined), which stores a clone of the source's value, as
  the library does from such a target; only a read of \<open>caller\<close> or \<open>arguments\<close> from a
  built-in function differs, which throws in the library and is not modelled. The source
  argument is an object or an array on every call that \<open>applyPatchChanges\<close> leads to.
\<close>

fun truthy :: "jsval \<Rightarrow> bool" where
  "truthy JUndefined = False"
| "truthy JNull = False"
| "truthy (JBool b) = b"
| "truthy (JNum n) = (n \<noteq> 0)"
| "truthy (JStr s) = (s \<noteq> [])"
| "truthy (JArr _) = True"
| "truthy (JObj _) = True"
| "truthy (JBuiltin _) = True"

definition isArray :: "jsval \<Rightarrow> bool" where
  "isArray v = (case v of JArr _ \<Rightarrow> True | _ \<Rightarrow> False)"

definition isMergeableObject :: "jsval \<Rightarrow> bool" where
  "isMergeableObject v =
     (case v of JArr _ \<Rightarrow> True | JObj _ \<Rightarrow> True | JBuiltin k \<Rightarrow> k = ''__proto__''
      | _ \<Rightarrow> False)"

definition emptyTarget :: "jsval \<Rightarrow> jsval" where
  "emptyTarget v = (if isArray v then JArr [] else JObj [])"

definition dontMergeArrays :: "jsval \<Rightarrow> jsval \<Rightarrow> jsval" where
  "dontMergeArrays oldArray newArray = newArray"

definition readTarget :: "jsval \<Rightarrow> string \<Rightarrow> jsval" where
  "readTarget target key = (case target of JObj kvs \<Rightarrow> readProp kvs key | _ \<Rightarrow> JUndefined)"

function cloneUnlessOtherwiseSpecified :: "jsval \<Rightarrow> jsval"
  and deepmerge :: "jsval \<Rightarrow> jsval \<Rightarrow> jsval" where
  "cloneUnlessOtherwiseSpecified v =
     (if isMergeableObject v then deepmerge (emptyTarget v) v else v)"
| "deepmerge target source =
     (if isArray source \<noteq> isArray target then cloneUnlessOtherwiseSpecified source
      else if isArray source then dontMergeArrays target source
      else JObj
        (fold (\<lambda>key destination.
                 setProp key
                   (if \<not> isMergeableObject (getProp (ownProps source) key)
                       \<or> \<not> truthy (readTarget target key)
                    then cloneUnlessOtherwiseSpecified (getProp (ownProps source) key)
                    else deepmerge (readTarget target key) (getProp (ownProps source) key))
                   destination)
           (keys (ownProps source))
           (if isMergeableObject target
            then fold (\<lambda>key destination.
                         setProp key
                           (cloneUnlessOtherwiseSpecified (getProp (ownProps target) key))
                           destination)
                   (keys (ownProps target)) []
            else [])))"
  by pat_completeness auto
termination
proof (relation "measure (\<lambda>x. case x of
          Inl v \<Rightarrow> 2 * size v + 3
        | Inr (t, s) \<Rightarrow> 2 * (size t + size s) + (if isArray s \<noteq> isArray t then 4 else 0))",
       goal_cases)
  case 1 show ?case by simp
next
  case (2 v)
  then show ?case by (cases v) (simp_all add: emptyTarget_def isArray_def)
next
  case (3 target source)
  then show ?case by simp
next
  case (4 target source key)
  then show ?case using size_ownProps_key [of key target] by simp
next
  case (5 target source key)
  then show ?case using size_ownProps_key [of key source] by simp
next
  case (6 target source key)
  then have "truthy (readTarget target key)" by simp
  then obtain tk where t: "target = JObj tk"
    by (cases target) (simp_all add: readTarget_def)
  have "size (readProp tk key) + 1 \<le> size (JObj tk)"
    using size_readProp_le [of tk key] by auto
  then show ?case using size_ownProps_key [of key source] 6 t
    by (simp add: readTarget_def)
qed

definition applyPatchChanges :: "obj \<Rightarrow> obj \<Rightarrow> obj" where
  "applyPatchChanges oldAttributes changes = ownProps (deepmerge (JObj oldAttributes) (JObj changes))"

text \<open>
  \<open>===\<close> and lodash's \<open>SameValueZero\<close> on identifiers: primitives are compared by value;
  arrays and objects are compared by reference, and a value held by a model is never the
  same reference as a value of an incoming resource, so they compare unequal.
\<close>

definition isPrimitive :: "jsval \<Rightarrow> bool" where
  "isPrimitive v = (case v of JArr _ \<Rightarrow> False | JObj _ \<Rightarrow> False | _ \<Rightarrow> True)"

definition strictEq :: "jsval \<Rightarrow> jsval \<Rightarrow> bool" where
  "strictEq a b = (isPrimitive a \<and> a = b)"

text \<open>lodash \<open>difference(array, values)\<close>: the values of the first array not included in
  the second, in the order of the first.\<close>

definition difference :: "jsval list \<Rightarrow> jsval list \<Rightarrow> jsval list" where
  "difference array vals = filter (\<lambda>x. \<not> list_ex (strictEq x) vals) array"

text \<open>Decimal rendering of numbers, for template literals and \<open>uniqueId\<close>.\<close>

function string_of_nat :: "nat \<Rightarrow> string" where
  "string_of_nat n =
     (if n < 10 then [''0123456789'' ! n]
      else string_of_nat (n div 10) @ [''0123456789'' ! (n mod 10)])"
  by pat_completeness auto
termination
  by (relation "measure (\<lambda>n. n)") auto

definition string_of_int :: "int \<Rightarrow> string" where
  "string_of_int i = (if i < 0 then ''-'' @ string_of_nat (nat (- i)) else string_of_nat (nat i))"

fun joinComma :: "string list \<Rightarrow> string" where
  "joinComma [] = []"
| "joinComma [s] = s"
| "joinComma (s # t # ss) = s @ '','' @ joinComma (t # ss)"

fun toStr :: "jsval \<Rightarrow> string" where
  "toStr JUndefined = ''undefined''"
| "toStr JNull = ''null''"
| "toStr (JBool b) = (if b then ''true'' else ''false'')"
| "toStr (JNum n) = string_of_int n"
| "toStr (JStr s) = s"
| "toStr (JArr xs) =
     joinComma (map (\<lambda>x. if x = JUndefined \<or> x = JNull then [] else toStr x) xs)"
| "toStr (JObj kvs) = ''[object Object]''"
| "toStr (JBuiltin k) =
     (if k = ''__proto__'' then ''[object Object]''
      else ''function '' @ (if k = ''constructor'' then ''Object'' else k)
           @ ''() { [native code] }'')"

text \<open>lodash \<open>uniqueId(prefix)\<close>: a process-wide counter, incremented before use.\<close>

definition uniqueId :: "string \<Rightarrow> nat \<Rightarrow> string \<times> nat" where
  "uniqueId prefix idCounter = (prefix @ string_of_nat (Suc idCounter), Suc idCounter)"

text \<open>
  The observable map of mobx. \<open>merge(other)\<close> sets every key of \<open>other\<close> in turn, keeping
  all other entries; \<open>replace(values)\<close> leaves the map holding exactly the given entries;
  \<open>toJS\<close> is a deep copy, the identity on values. An object spread
  \<open>{...a, ...b}\<close> copies the properties of \<open>a\<close> and then of \<open>b\<close> into a fresh object.
\<close>

definition merge :: "obj \<Rightarrow> obj \<Rightarrow> obj" where
  "merge m other = fold (\<lambda>key acc. AList.update key (getProp other key) acc) (keys other) m"

definition replace :: "obj \<Rightarrow> obj \<Rightarrow> obj" where
  "replace m vals = vals"

definition spread :: "obj \<Rightarrow> obj \<Rightarrow> obj" where
  "spread a b = merge (merge [] a) b"

section \<open>Model\<close>

datatype error =
    AttributeNotFound string
  | MissingUrlRoot
  | NotImplemented

text \<open>
  The fields of a \<open>Model\<close> instance. \<open>primaryKey\<close> and \<open>urlRoot\<close> stand for the getter and
  the method a subclass overrides (defaults \<open>''id''\<close> and \<open>null\<close>). \<open>collection\<close> is the
  back-reference to the owning collection, held as that collection's identity \<open>cid\<close>.
  Two records are the same object when they are equal: every constructed model has its
  own \<open>optimisticId\<close>.
\<close>

record model =
  attributes :: obj
  committedAttributes :: obj
  defaultAttributes :: obj
  optimisticId :: string
  collection :: "nat option"
  primaryKey :: string
  urlRoot :: "string option"

definition toJS :: "model \<Rightarrow> obj" where
  "toJS m = attributes m"

definition has :: "model \<Rightarrow> string \<Rightarrow> bool" where
  "has m attribute = (attribute \<in> set (keys (attributes m)))"

definition get :: "model \<Rightarrow> string \<Rightarrow> error + jsval" where
  "get m attribute =
     (if has m attribute then Inr (getProp (attributes m) attribute)
      else Inl (AttributeNotFound attribute))"

definition isNew :: "model \<Rightarrow> bool" where
  "isNew m =
     (\<not> has m (primaryKey m) \<or>
      (case get m (primaryKey m) of Inr v \<Rightarrow> \<not> truthy v | Inl e \<Rightarrow> True))"

definition model_id :: "model \<Rightarrow> error + jsval" where
  "model_id m =
     (if has m (primaryKey m) then get m (primaryKey m)
      else Inr (JStr (optimisticId m)))"

definition changedAttributes :: "model \<Rightarrow> string list" where
  "changedAttributes m =
     getChangedAttributesBetween (committedAttributes m) (attributes m)"

definition changes :: "model \<Rightarrow> obj" where
  "changes m = getChangesBetween (committedAttributes m) (attributes m)"

definition hasChanges :: "model \<Rightarrow> string option \<Rightarrow> bool" where
  "hasChanges m attribute =
     (case attribute of
        Some a \<Rightarrow> if a \<noteq> [] then a \<in> set (changedAttributes m)
                  else length (changedAttributes m) > 0
      | None \<Rightarrow> length (changedAttributes m) > 0)"

definition commitChanges :: "model \<Rightarrow> model" where
  "commitChanges m = m\<lparr>committedAttributes := replace (committedAttributes m) (toJS m)\<rparr>"

definition discardChanges :: "model \<Rightarrow> model" where
  "discardChanges m = m\<lparr>attributes := replace (attributes m) (committedAttributes m)\<rparr>"

definition reset :: "model \<Rightarrow> obj option \<Rightarrow> model" where
  "reset m data =
     m\<lparr>attributes := replace (attributes m)
           (case data of Some d \<Rightarrow> spread (defaultAttributes m) d
                       | None \<Rightarrow> defaultAttributes m)\<rparr>"

definition model_set :: "model \<Rightarrow> obj \<Rightarrow> model" where
  "model_set m data = m\<lparr>attributes := merge (attributes m) data\<rparr>"

text \<open>The constructor; the class (primary key, url root) and the counter of \<open>uniqueId\<close> are
  explicit. It returns the new model and the advanced counter.\<close>

definition new_Model :: "string \<Rightarrow> string option \<Rightarrow> nat \<Rightarrow> obj \<Rightarrow> obj \<Rightarrow> model \<times> nat" where
  "new_Model pk root idCounter attrs defaults =
     (let (oid, idCounter') = uniqueId ''i_'' idCounter;
          mergedAttributes = spread defaults attrs
      in (commitChanges
            \<lparr>attributes = replace [] mergedAttributes,
             committedAttributes = [],
             defaultAttributes = defaults,
             optimisticId = oid,
             collection = None,
             primaryKey = pk,
             urlRoot = root\<rparr>,
          idCounter'))"

section \<open>Collection\<close>

text \<open>
  A collection holds its members in order. \<open>coll_url\<close> is the result of the abstract
  method \<open>url()\<close> (\<open>None\<close>: not implemented, it throws); \<open>modelPrimaryKey\<close> and
  \<open>modelUrlRoot\<close> describe the class that the abstract method \<open>model(attributes)\<close> returns.
  The state holds one collection; a model's back-reference is either null or that
  collection, and \<open>owner\<close> dereferences it.
\<close>

record collection =
  cid :: nat
  models :: "model list"
  coll_url :: "string option"
  modelPrimaryKey :: string
  modelUrlRoot :: "string option"

definition owner :: "collection \<Rightarrow> model \<Rightarrow> collection option" where
  "owner c m = (if collection m = Some (cid c) then Some c else None)"

definition collection_url :: "collection \<Rightarrow> error + string" where
  "collection_url c = (case coll_url c of None \<Rightarrow> Inl NotImplemented | Some u \<Rightarrow> Inr u)"

definition truthyStr :: "string option \<Rightarrow> bool" where
  "truthyStr r = (case r of None \<Rightarrow> False | Some u \<Rightarrow> u \<noteq> [])"

definition url :: "collection \<Rightarrow> model \<Rightarrow> error + string" where
  "url c m =
     (case (if \<not> truthyStr (urlRoot m) \<and> owner c m \<noteq> None
            then (case collection_url c of Inl e \<Rightarrow> Inl e | Inr u \<Rightarrow> Inr (Some u))
            else Inr (urlRoot m)) of
        Inl e \<Rightarrow> Inl e
      | Inr root \<Rightarrow>
          (case root of
             None \<Rightarrow> Inl MissingUrlRoot
           | Some r \<Rightarrow>
               if r = [] then Inl MissingUrlRoot
               else if isNew m then Inr r
               else (case get m (primaryKey m) of
                       Inl e \<Rightarrow> Inl e
                     | Inr v \<Rightarrow> Inr (r @ ''/'' @ toStr v))))"

text \<open>The value of the \<open>id\<close> getter where the collection reads it (\<open>item.id\<close>); \<open>_ids\<close>;
  and \<open>get\<close> as the collection calls it itself, without \<open>required\<close>.\<close>

definition the_id :: "model \<Rightarrow> jsval" where
  "the_id m = (case model_id m of Inr v \<Rightarrow> v | Inl e \<Rightarrow> JUndefined)"

definition ids :: "collection \<Rightarrow> jsval list" where
  "ids c = filter truthy (map the_id (models c))"

definition collection_get :: "collection \<Rightarrow> jsval \<Rightarrow> model option" where
  "collection_get c i = find (\<lambda>item. strictEq (the_id item) i) (models c)"

text \<open>\<open>Array.prototype.indexOf\<close> and \<open>splice(start, 1)\<close>; a negative start counts from
  the end.\<close>

fun indexOf :: "'a list \<Rightarrow> 'a \<Rightarrow> int" where
  "indexOf [] x = - 1"
| "indexOf (y # ys) x =
     (if y = x then 0 else (let i = indexOf ys x in if i < 0 then - 1 else i + 1))"

definition splice1 :: "'a list \<Rightarrow> int \<Rightarrow> 'a list" where
  "splice1 xs start =
     (let n = int (length xs);
          s = (if start < 0 then max (n + start) 0 else min start n)
      in take (nat s) xs @ drop (Suc (nat s)) xs)"

text \<open>
  One round of the \<open>forEach\<close> of \<open>remove\<close>, for an identifier or a model instance. It
  returns the collection and, when a member was removed, that member with its
  back-reference cleared.
\<close>

datatype ref = Id jsval | Instance model

definition isNumberOrString :: "jsval \<Rightarrow> bool" where
  "isNumberOrString v = (case v of JNum _ \<Rightarrow> True | JStr _ \<Rightarrow> True | _ \<Rightarrow> False)"

definition remove_step :: "ref \<Rightarrow> collection \<Rightarrow> collection \<times> model option" where
  "remove_step r c =
     (let found =
            (case r of
               Instance m \<Rightarrow> if collection m = Some (cid c) then Some m else None
             | Id v \<Rightarrow> if isNumberOrString v then collection_get c v else None)
      in case found of
           None \<Rightarrow> (c, None)
         | Some md \<Rightarrow>
             (c\<lparr>models := splice1 (models c) (indexOf (models c) md)\<rparr>,
              Some (md\<lparr>collection := None\<rparr>)))"

definition remove :: "collection \<Rightarrow> ref list \<Rightarrow> collection" where
  "remove c refs = fold (\<lambda>r acc. fst (remove_step r acc)) refs c"

definition build :: "collection \<Rightarrow> nat \<Rightarrow> obj + model \<Rightarrow> model \<times> nat" where
  "build c idCounter item =
     (case item of
        Inr m \<Rightarrow> (m\<lparr>collection := Some (cid c)\<rparr>, idCounter)
      | Inl attrs \<Rightarrow>
          (let (m, idCounter') = new_Model (modelPrimaryKey c) (modelUrlRoot c) idCounter attrs []
           in (m\<lparr>collection := Some (cid c)\<rparr>, idCounter')))"

fun build_all :: "collection \<Rightarrow> nat \<Rightarrow> (obj + model) list \<Rightarrow> model list \<times> nat" where
  "build_all c idCounter [] = ([], idCounter)"
| "build_all c idCounter (item # items) =
     (let (m, idCounter') = build c idCounter item;
          (ms, idCounter'') = build_all c idCounter' items
      in (m # ms, idCounter''))"

definition add :: "collection \<Rightarrow> nat \<Rightarrow> (obj + model) list \<Rightarrow> collection \<times> nat" where
  "add c idCounter data =
     (let (ms, idCounter') = build_all c idCounter data
      in (c\<lparr>models := models c @ ms\<rparr>, idCounter'))"

record setOptions =
  opt_add :: bool
  opt_change :: bool
  opt_remove :: bool

text \<open>One round of the \<open>forEach\<close> over the resources in \<open>Collection.set\<close>; \<open>model.set\<close>
  mutates the member where it stands.\<close>

definition set_step :: "setOptions \<Rightarrow> obj \<Rightarrow> collection \<times> nat \<Rightarrow> collection \<times> nat" where
  "set_step opts resource st =
     (let (c, idCounter) = st;
          found = collection_get c (getProp resource ''id'')
      in case found of
           Some md \<Rightarrow>
             (if opt_change opts
              then (c\<lparr>models := (models c)[nat (indexOf (models c) md) := model_set md resource]\<rparr>,
                    idCounter)
              else (c, idCounter))
         | None \<Rightarrow>
             (if opt_add opts then add c idCounter [Inl resource] else (c, idCounter)))"

definition collection_set ::
  "collection \<Rightarrow> nat \<Rightarrow> obj list \<Rightarrow> setOptions \<Rightarrow> collection \<times> nat" where
  "collection_set c idCounter resources opts =
     (let c1 =
            (if opt_remove opts
             then (let rids = map (\<lambda>r. getProp r ''id'') resources;
                       toRemove = difference (ids c) rids
                   in if toRemove \<noteq> [] then remove c (map Id toRemove) else c)
             else c)
      in fold (set_step opts) resources (c1, idCounter))"

section \<open>Saving and destroying a model\<close>

datatype http_method = Post | Patch | Put | Del

record request =
  verb :: http_method
  target :: string
  payload :: "obj option"

record saveOptions =
  optimistic :: bool
  patch :: bool
  keepChanges :: bool

text \<open>What the promise callbacks of \<open>save\<close> close over.\<close>

record saveClosure =
  currentAttributes :: obj
  keepChangesFlag :: bool

text \<open>
  The synchronous part of \<open>save\<close>: it returns the model as the call leaves it and either
  the error thrown by \<open>url()\<close> or the request handed to the transport together with the
  closure of the callbacks. \<open>attrs\<close> is \<open>None\<close> when no attributes are passed; the request
  label and the progress hook belong to the request bookkeeping and are left out.
\<close>

definition save ::
  "collection \<Rightarrow> model \<Rightarrow> obj option \<Rightarrow> saveOptions \<Rightarrow> model \<times> (error + request \<times> saveClosure)" where
  "save c m attrs opts =
     (let current = toJS m;
          data =
            (if patch opts \<and> attrs \<noteq> None \<and> \<not> isNew m then the attrs
             else if patch opts \<and> \<not> isNew m then changes m
             else spread current (case attrs of Some a \<Rightarrow> a | None \<Rightarrow> []));
          method = (if isNew m then Post else if patch opts then Patch else Put);
          m' =
            (if optimistic opts \<and> attrs \<noteq> None
             then model_set m
                    (if patch opts then applyPatchChanges current (the attrs) else the attrs)
             else m)
      in (m',
          case url c m' of
            Inl e \<Rightarrow> Inl e
          | Inr u \<Rightarrow>
              Inr (\<lparr>verb = method, target = u, payload = Some data\<rparr>,
                   \<lparr>currentAttributes = current, keepChangesFlag = keepChanges opts\<rparr>)))"

text \<open>The success callback, run on the model as it is when the response arrives.\<close>

definition save_then :: "saveClosure \<Rightarrow> obj \<Rightarrow> model \<Rightarrow> model" where
  "save_then cl data m =
     (let chg = getChangesBetween (currentAttributes cl) (toJS m);
          m1 = commitChanges (model_set m data)
      in if keepChangesFlag cl then model_set m1 (applyPatchChanges data chg) else m1)"

text \<open>The failure callback.\<close>

definition save_catch :: "saveClosure \<Rightarrow> model \<Rightarrow> model" where
  "save_catch cl m = model_set m (currentAttributes cl)"

text \<open>What the promise callbacks of \<open>destroy\<close> close over: whether the captured
  \<open>collection\<close> is non-null, and \<open>optimistic\<close>.\<close>

record destroyClosure =
  ownedFlag :: bool
  optimisticFlag :: bool

definition remove_instance :: "collection \<Rightarrow> model \<Rightarrow> collection \<times> model" where
  "remove_instance c m =
     (case remove_step (Instance m) c of
        (c', Some m') \<Rightarrow> (c', m')
      | (c', None) \<Rightarrow> (c', m))"

text \<open>
  The synchronous part of \<open>destroy\<close>: the collection and the model as the call leaves
  them, and the error of \<open>url()\<close>, no request at all (a new model), or the DELETE request
  with the closure of its callbacks.
\<close>

definition destroy ::
  "collection \<Rightarrow> model \<Rightarrow> obj option \<Rightarrow> bool \<Rightarrow>
   (collection \<times> model) \<times> (error + (request \<times> destroyClosure) option)" where
  "destroy c m data optimistic_opt =
     (let coll = owner c m
      in if isNew m \<and> coll \<noteq> None then (remove_instance c m, Inr None)
         else if isNew m then ((c, m), Inr None)
         else (case url c m of
                 Inl e \<Rightarrow> ((c, m), Inl e)
               | Inr u \<Rightarrow>
                   (if optimistic_opt \<and> coll \<noteq> None then remove_instance c m else (c, m),
                    Inr (Some (\<lparr>verb = Del, target = u, payload = data\<rparr>,
                               \<lparr>ownedFlag = (coll \<noteq> None),
                                optimisticFlag = optimistic_opt\<rparr>)))))"

definition destroy_then :: "destroyClosure \<Rightarrow> collection \<Rightarrow> model \<Rightarrow> collection \<times> model" where
  "destroy_then cl c m =
     (if \<not> optimisticFlag cl \<and> ownedFlag cl then remove_instance c m else (c, m))"

definition destroy_catch ::
  "destroyClosure \<Rightarrow> collection \<Rightarrow> nat \<Rightarrow> model \<Rightarrow> collection \<times> nat" where
  "destroy_catch cl c idCounter m =
     (if optimisticFlag cl \<and> ownedFlag cl then add c idCounter [Inr m] else (c, idCounter))"

section \<open>Auxiliary notions\<close>

text \<open>
  Plain data, as a response body or an attribute bag holds it: every object has each of
  its keys once; no key is \<open>__proto__\<close> (an assignment to it creates no property), and none
  is \<open>caller\<close> or \<open>arguments\<close> (reading these from a built-in function throws); no value is
  a built-in. Arrays are taken whole, as the diff and the patch take them.
  \<open>retainsKeys a b\<close> says that a patch can turn \<open>a\<close> into \<open>b\<close>: \<open>b\<close> has every key of \<open>a\<close>,
  and the keys it adds hold defined values, here and wherever both hold a plain object
  under the same key.
\<close>

definition unsafeKeys :: "string list" where
  "unsafeKeys = [''__proto__'', ''caller'', ''arguments'']"

fun plainData :: "jsval \<Rightarrow> bool" where
  "plainData (JObj kvs) =
     (distinct (map fst kvs) \<and>
      (\<forall>kv \<in> set kvs. fst kv \<notin> set unsafeKeys \<and> plainData (snd kv)))"
| "plainData (JBuiltin k) = False"
| "plainData v = True"

function retainsKeys :: "obj \<Rightarrow> obj \<Rightarrow> bool" where
  "retainsKeys a b =
     (set (keys a) \<subseteq> set (keys b) \<and>
      (\<forall>k \<in> set (keys b).
         (k \<in> set (keys a) \<or> getProp b k \<noteq> JUndefined) \<and>
         (case getProp a k of
            JObj s \<Rightarrow> (case getProp b k of JObj t \<Rightarrow> retainsKeys s t | _ \<Rightarrow> True)
          | _ \<Rightarrow> True)))"
  by pat_completeness auto
termination
proof (relation "measure (\<lambda>(s, t). size (JObj s))", goal_cases)
  case 1 show ?case by simp
next
  case (2 a b k s t)
  then show ?case using size_getProp_less [of a k] by simp
qed

declare cloneUnlessOtherwiseSpecified.simps [simp del] deepmerge.simps [simp del]
  getChangesBetween.simps [simp del] retainsKeys.simps [simp del]

text \<open>Removal by identifier deletes the first member with that identifier.\<close>

fun del_first :: "('a \<Rightarrow> bool) \<Rightarrow> 'a list \<Rightarrow> 'a list" where
  "del_first Q [] = []"
| "del_first Q (y # ys) = (if Q y then ys else y # del_first Q ys)"

definition rm :: "jsval \<Rightarrow> model list \<Rightarrow> model list" where
  "rm v ms = (if isNumberOrString v then del_first (\<lambda>m. the_id m = v) ms else ms)"

text \<open>A member is stale for a list of incoming identifiers when \<open>Collection.set\<close> removes it.\<close>

definition stale :: "jsval list \<Rightarrow> model \<Rightarrow> bool" where
  "stale rids m \<longleftrightarrow> truthy (the_id m) \<and> isNumberOrString (the_id m) \<and> the_id m \<notin> set rids"

text \<open>The default configuration of \<open>Collection.set\<close>'s input: the primary key is \<open>id\<close>,
  and a resource carries a primitive value under \<open>id\<close>. \<open>ins\<close> is what one resource does to
  the list of member ids.\<close>

definition default_pk :: "collection \<Rightarrow> bool" where
  "default_pk c \<longleftrightarrow>
     modelPrimaryKey c = ''id'' \<and> (\<forall>m \<in> set (models c). primaryKey m = ''id'')"

definition has_id :: "obj \<Rightarrow> bool" where
  "has_id r \<longleftrightarrow> ''id'' \<in> set (keys r) \<and> isPrimitive (getProp r ''id'')"

definition ins :: "jsval \<Rightarrow> jsval list \<Rightarrow> jsval list" where
  "ins x I = (if x \<in> set I then I else I @ [x])"

section \<open>Example data\<close>

definition exampleCommitted :: obj where
  "exampleCommitted =
     [(''id'', JNum 1), (''name'', JStr ''a''),
      (''meta'', JObj [(''x'', JNum 1), (''y'', JNum 2)])]"

definition exampleTarget :: obj where
  "exampleTarget =
     [(''name'', JStr ''b''), (''id'', JNum 1),
      (''meta'', JObj [(''x'', JNum 1), (''y'', JNum 3), (''z'', JNull)]),
      (''tags'', JArr [JNum 1, JNum 2])]"

definition emptyCollection :: collection where
  "emptyCollection =
     \<lparr>cid = 0, models = [], coll_url = Some ''/items'',
      modelPrimaryKey = ''id'', modelUrlRoot = None\<rparr>"

definition defaultSave :: saveOptions where
  "defaultSave = \<lparr>optimistic = True, patch = True, keepChanges = False\<rparr>"

definition defaultSet :: setOptions where
  "defaultSet = \<lparr>opt_add = True, opt_change = True, opt_remove = True\<rparr>"

text \<open>A model whose primary key holds 0, and a persisted model with key 1.\<close>

definition zeroIdModel :: model where
  "zeroIdModel =
     fst (new_Model ''id'' (Some ''/items'') 0 [(''id'', JNum 0), (''name'', JStr ''a'')] [])"

definition persistedModel :: model where
  "persistedModel = fst (new_Model ''id'' (Some ''/items'') 0 [(''id'', JNum 1)] [])"

text \<open>A collection of a model class with primary key \<open>uuid\<close>, holding one member, and a
  collection of the default class holding the members \<open>"a"\<close>, \<open>0\<close> and \<open>"b"\<close>; both are
  filled by \<open>Collection.set\<close>, as the constructor does.\<close>

definition uuidCollection :: "collection \<times> nat" where
  "uuidCollection =
     collection_set (emptyCollection\<lparr>modelPrimaryKey := ''uuid''\<rparr>) 0
       [[(''uuid'', JStr ''a''), (''name'', JStr ''old'')]] defaultSet"

definition idCollection :: "collection \<times> nat" where
  "idCollection =
     collection_set emptyCollection 0
       [[(''id'', JStr ''a''), (''name'', JStr ''old'')], [(''id'', JNum 0)], [(''id'', JStr ''b'')]]
       defaultSet"

text \<open>A collection of two persisted members, and its first member.\<close>

definition pairCollection :: collection where
  "pairCollection =
     fst (collection_set emptyCollection 0 [[(''id'', JNum 1)], [(''id'', JNum 2)]] defaultSet)"

definition firstMember :: model where
  "firstMember = hd (models pairCollection)"

definition incoming :: "obj list" where
  "incoming = [[(''id'', JStr ''c'')], [(''id'', JStr ''a''), (''name'', JStr ''new'')]]"

section \<open>Auxiliary facts\<close>

subsection \<open>Attribute maps\<close>

lemma isEqual_refl: "isEqual v v"
proof (induction v rule: jsval.induct)
  case (JArr xs)
  then show ?case by simp
next
  case (JObj a)
  have "isEqual (getProp a k) (getProp a k)" if "k \<in> set (keys a)" for k
  proof -
    from getProp_in_set [of a k] show ?thesis
    proof
      assume "getProp a k = JUndefined" then show ?thesis by simp
    next
      assume "(k, getProp a k) \<in> set a"
      then show ?thesis using JObj by fastforce
    qed
  qed
  then show ?case by simp
qed simp_all

lemma has_iff: "has m a \<longleftrightarrow> map_of (attributes m) a \<noteq> None"
  by (simp add: has_def keys_def map_of_eq_None_iff)

lemma isNew_iff:
  "isNew m \<longleftrightarrow>
     (case map_of (attributes m) (primaryKey m) of None \<Rightarrow> True | Some v \<Rightarrow> \<not> truthy v)"
  by (auto simp: isNew_def get_def has_iff getProp_def split: option.splits)

lemma map_of_fold_update:
  "map_of (fold (\<lambda>key acc. AList.update key (f key) acc) ks m) k =
     (if k \<in> set ks then Some (f k) else map_of m k)"
  by (induction ks arbitrary: m) (auto simp: update_conv')

lemma keys_fold_update:
  "set (keys (fold (\<lambda>key acc. AList.update key (f key) acc) ks m)) = set (keys m) \<union> set ks"
  by (induction ks arbitrary: m) (auto simp: keys_def dom_update)

lemma keys_merge: "set (keys (merge m other)) = set (keys m) \<union> set (keys other)"
  by (simp add: merge_def keys_fold_update)

lemma getProp_merge:
  "getProp (merge m other) k = (if k \<in> set (keys other) then getProp other k else getProp m k)"
  by (simp add: merge_def getProp_def map_of_fold_update)

lemma getChangedAttributesBetween_same: "getChangedAttributesBetween a a = []"
  by (simp add: getChangedAttributesBetween_def isEqual_refl)

lemma url_new:
  "isNew m \<Longrightarrow> url c m = Inr u \<Longrightarrow>
   (truthyStr (urlRoot m) \<and> urlRoot m = Some u) \<or>
   (\<not> truthyStr (urlRoot m) \<and> collection m = Some (cid c) \<and> coll_url c = Some u)"
  by (auto simp: url_def owner_def collection_url_def truthyStr_def
      split: if_splits option.splits sum.splits)

lemma the_id_eq:
  "the_id m = (if primaryKey m \<in> set (keys (attributes m))
               then getProp (attributes m) (primaryKey m) else JStr (optimisticId m))"
  by (simp add: the_id_def model_id_def get_def has_def)

lemma the_id_model_set:
  "primaryKey m \<in> set (keys r) \<Longrightarrow> the_id (model_set m r) = getProp r (primaryKey m)"
  by (simp add: the_id_eq model_set_def keys_merge getProp_merge)

lemma new_Model_fields:
  "attributes (fst (new_Model pk root n r [])) = merge [] r"
  "primaryKey (fst (new_Model pk root n r [])) = pk"
  by (simp_all add: new_Model_def uniqueId_def commitChanges_def replace_def spread_def
      merge_def keys_def Let_def)

subsection \<open>Arrays\<close>

lemma indexOf_mem:
  "x \<in> set xs \<Longrightarrow>
   0 \<le> indexOf xs x \<and> nat (indexOf xs x) < length xs \<and> xs ! nat (indexOf xs x) = x"
  by (induction xs) (auto simp: Let_def nat_add_distrib)

lemma splice1_in_range:
  "0 \<le> i \<Longrightarrow> nat i < length xs \<Longrightarrow> splice1 xs i = take (nat i) xs @ drop (Suc (nat i)) xs"
proof -
  assume "0 \<le> i" and "nat i < length xs"
  then have "min i (int (length xs)) = i" by linarith
  then show ?thesis using \<open>0 \<le> i\<close> by (simp add: splice1_def Let_def)
qed

lemma take_drop_indexOf:
  "x \<in> set xs \<Longrightarrow>
   take (nat (indexOf xs x)) xs @ drop (Suc (nat (indexOf xs x))) xs = remove1 x xs"
proof (induction xs)
  case Nil then show ?case by simp
next
  case (Cons y ys)
  show ?case
  proof (cases "y = x")
    case True then show ?thesis by simp
  next
    case False
    with Cons.prems have m: "x \<in> set ys" by simp
    from indexOf_mem [OF m] have i: "0 \<le> indexOf ys x" by auto
    then have "nat (indexOf ys x + 1) = Suc (nat (indexOf ys x))" by simp
    then show ?thesis using False i Cons.IH [OF m] by (simp add: Let_def)
  qed
qed

lemma splice1_indexOf: "x \<in> set xs \<Longrightarrow> splice1 xs (indexOf xs x) = remove1 x xs"
  using indexOf_mem [of x xs] by (simp add: splice1_in_range take_drop_indexOf)

lemma uniq_snoc: "uniq (xs @ [x]) = (if x \<in> set xs then uniq xs else uniq xs @ [x])"
  by (simp add: uniq_def)

lemma strictEq_numstr: "isNumberOrString v \<Longrightarrow> strictEq x v \<longleftrightarrow> x = v"
  by (cases v) (auto simp: strictEq_def isNumberOrString_def isPrimitive_def)

lemma strictEq_prim: "isPrimitive v \<Longrightarrow> strictEq x v \<longleftrightarrow> x = v"
  by (auto simp: strictEq_def)

lemma list_ex_strictEq: "isNumberOrString x \<Longrightarrow> list_ex (strictEq x) vs \<longleftrightarrow> x \<in> set vs"
  by (cases x) (auto simp: list_ex_iff strictEq_def isPrimitive_def isNumberOrString_def)

subsection \<open>Removing members\<close>

lemma remove_instance_member:
  assumes "m \<in> set (models c)" "collection m = Some (cid c)"
  shows "remove_instance c m = (c\<lparr>models := remove1 m (models c)\<rparr>, m\<lparr>collection := None\<rparr>)"
  using assms by (simp add: remove_instance_def remove_step_def splice1_indexOf)

lemma find_remove1: "find Q ms = Some md \<Longrightarrow> remove1 md ms = del_first Q ms"
proof (induction ms)
  case Nil then show ?case by simp
next
  case (Cons y ys)
  show ?case
  proof (cases "Q y")
    case True with Cons.prems show ?thesis by simp
  next
    case False
    with Cons.prems have f: "find Q ys = Some md" by simp
    then have "Q md" by (auto simp: find_Some_iff)
    with False have "y \<noteq> md" by auto
    then show ?thesis using False Cons.IH [OF f] by simp
  qed
qed

lemma find_None_del_first: "find Q ms = None \<Longrightarrow> del_first Q ms = ms"
  by (induction ms) (auto split: if_splits)

lemma del_first_append:
  "\<forall>p \<in> set pre. \<not> Q p \<Longrightarrow> del_first Q (pre @ ms) = pre @ del_first Q ms"
  by (induction pre) auto

lemma remove_step_Id: "fst (remove_step (Id v) c) = c\<lparr>models := rm v (models c)\<rparr>"
proof (cases "isNumberOrString v")
  case False then show ?thesis by (simp add: remove_step_def rm_def)
next
  case True
  then have g: "collection_get c v = find (\<lambda>m. the_id m = v) (models c)"
    by (simp add: collection_get_def strictEq_numstr)
  show ?thesis
  proof (cases "find (\<lambda>m. the_id m = v) (models c)")
    case None
    then show ?thesis using True g by (simp add: remove_step_def rm_def find_None_del_first)
  next
    case (Some md)
    then have "md \<in> set (models c)" by (auto simp: find_Some_iff)
    then show ?thesis using True g Some
      by (simp add: remove_step_def rm_def splice1_indexOf find_remove1)
  qed
qed

lemma remove_Ids: "remove c (map Id vs) = c\<lparr>models := fold rm vs (models c)\<rparr>"
proof (induction vs arbitrary: c)
  case Nil then show ?case by (simp add: remove_def)
next
  case (Cons v vs)
  have "remove c (map Id (v # vs)) = remove (fst (remove_step (Id v) c)) (map Id vs)"
    by (simp add: remove_def)
  then show ?case by (simp add: Cons.IH remove_step_Id)
qed

lemma fold_rm_filter:
  "\<forall>p \<in> set pre. \<not> (P (the_id p) \<and> isNumberOrString (the_id p)) \<Longrightarrow>
   fold rm (filter P (map the_id ms)) (pre @ ms)
     = pre @ filter (\<lambda>m. \<not> (P (the_id m) \<and> isNumberOrString (the_id m))) ms"
proof (induction ms arbitrary: pre)
  case Nil then show ?case by simp
next
  case (Cons m ms)
  show ?case
  proof (cases "P (the_id m) \<and> isNumberOrString (the_id m)")
    case True
    then have "\<forall>p \<in> set pre. the_id p \<noteq> the_id m" using Cons.prems by auto
    then have "rm (the_id m) (pre @ m # ms) = pre @ ms"
      using True by (simp add: rm_def del_first_append)
    then show ?thesis using True Cons.IH [OF Cons.prems] by simp
  next
    case False
    then have pre': "\<forall>p \<in> set (pre @ [m]). \<not> (P (the_id p) \<and> isNumberOrString (the_id p))"
      using Cons.prems by auto
    have e: "fold rm (filter P (map the_id (m # ms))) (pre @ m # ms)
              = fold rm (filter P (map the_id ms)) ((pre @ [m]) @ ms)"
      using False by (auto simp: rm_def)
    show ?thesis unfolding e using Cons.IH [OF pre'] False by auto
  qed
qed

lemma removal_phase:
  "(let rids = map (\<lambda>r. getProp r ''id'') R;
        toRemove = difference (ids c) rids
    in if toRemove \<noteq> [] then remove c (map Id toRemove) else c)
   = c\<lparr>models := filter (\<lambda>m. \<not> stale (map (\<lambda>r. getProp r ''id'') R) m) (models c)\<rparr>"
proof -
  let ?rids = "map (\<lambda>r. getProp r ''id'') R"
  let ?P = "\<lambda>x. truthy x \<and> \<not> list_ex (strictEq x) ?rids"
  have d: "difference (ids c) ?rids = filter ?P (map the_id (models c))"
    by (simp add: difference_def ids_def conj_commute)
  have f: "fold rm (filter ?P (map the_id (models c))) (models c)
            = filter (\<lambda>m. \<not> (?P (the_id m) \<and> isNumberOrString (the_id m))) (models c)"
    using fold_rm_filter [of "[]" ?P "models c"] by simp
  have k: "(\<lambda>m. \<not> (?P (the_id m) \<and> isNumberOrString (the_id m))) = (\<lambda>m. \<not> stale ?rids m)"
    by (auto simp: stale_def list_ex_strictEq fun_eq_iff)
  have r: "remove c (map Id (difference (ids c) ?rids))
            = c\<lparr>models := filter (\<lambda>m. \<not> stale ?rids m) (models c)\<rparr>"
    unfolding remove_Ids d f k ..
  show ?thesis
  proof (cases "difference (ids c) ?rids = []")
    case False then show ?thesis using r by (simp add: Let_def)
  next
    case True
    have "remove c (map Id (difference (ids c) ?rids)) = c" unfolding True by (simp add: remove_def)
    then show ?thesis using r True by (simp add: Let_def)
  qed
qed

subsection \<open>Adding and changing members\<close>

lemma fold_ins: "fold ins xs I = I @ uniq (filter (\<lambda>x. x \<notin> set I) xs)"
proof (induction xs rule: rev_induct)
  case Nil then show ?case by (simp add: uniq_def)
next
  case (snoc x xs)
  then show ?case by (auto simp: ins_def uniq_snoc set_uniq)
qed

lemma set_step_found:
  assumes "find (\<lambda>m. the_id m = getProp r ''id'') (models c) = Some md"
    and "isPrimitive (getProp r ''id'')"
  shows "set_step defaultSet r (c, n)
          = (c\<lparr>models := (models c)[nat (indexOf (models c) md) := model_set md r]\<rparr>, n)"
  using assms by (simp add: set_step_def collection_get_def strictEq_prim defaultSet_def)

lemma set_step_missing:
  assumes "find (\<lambda>m. the_id m = getProp r ''id'') (models c) = None"
    and "isPrimitive (getProp r ''id'')"
  shows "set_step defaultSet r (c, n)
          = (c\<lparr>models := models c @
                 [(fst (new_Model (modelPrimaryKey c) (modelUrlRoot c) n r []))
                    \<lparr>collection := Some (cid c)\<rparr>]\<rparr>,
             snd (new_Model (modelPrimaryKey c) (modelUrlRoot c) n r []))"
  using assms
  by (simp add: set_step_def collection_get_def strictEq_prim defaultSet_def add_def build_def
      split_beta Let_def)

lemma set_step_ids:
  assumes "default_pk c" and "has_id r"
  shows "default_pk (fst (set_step defaultSet r (c, n)))
       \<and> length (models c) \<le> length (models (fst (set_step defaultSet r (c, n))))
       \<and> map optimisticId (take (length (models c)) (models (fst (set_step defaultSet r (c, n)))))
           = map optimisticId (models c)
       \<and> map the_id (models (fst (set_step defaultSet r (c, n))))
           = ins (getProp r ''id'') (map the_id (models c))"
proof (cases "find (\<lambda>m. the_id m = getProp r ''id'') (models c)")
  case None
  then have notin: "getProp r ''id'' \<notin> set (map the_id (models c))"
    by (auto simp: find_None_iff)
  have prim: "isPrimitive (getProp r ''id'')" using assms(2) by (simp add: has_id_def)
  have k: "''id'' \<in> set (keys (merge [] r))" using assms(2) by (simp add: has_id_def keys_merge)
  have idn: "the_id ((fst (new_Model ''id'' (modelUrlRoot c) n r []))\<lparr>collection := Some (cid c)\<rparr>)
              = getProp r ''id''"
    using k assms(2) by (simp add: the_id_eq new_Model_fields getProp_merge has_id_def)
  have pk: "modelPrimaryKey c = ''id''" using assms(1) by (simp add: default_pk_def)
  show ?thesis
    unfolding set_step_missing [OF None prim] pk
    using assms(1) notin idn by (simp add: default_pk_def ins_def new_Model_fields)
next
  case (Some md)
  then have mem: "md \<in> set (models c)" and idm: "the_id md = getProp r ''id''"
    by (auto simp: find_Some_iff)
  have prim: "isPrimitive (getProp r ''id'')" using assms(2) by (simp add: has_id_def)
  have pkm: "primaryKey md = ''id''" using assms(1) mem by (simp add: default_pk_def)
  from indexOf_mem [OF mem] have ix: "nat (indexOf (models c) md) < length (models c)"
    and nth: "models c ! nat (indexOf (models c) md) = md" by auto
  have same_id: "the_id (model_set md r) = the_id md"
    using assms(2) pkm idm by (simp add: the_id_model_set has_id_def)
  have same_oid: "optimisticId (model_set md r) = optimisticId md"
    and same_pk: "primaryKey (model_set md r) = primaryKey md"
    by (simp_all add: model_set_def)
  have ids: "map the_id ((models c)[nat (indexOf (models c) md) := model_set md r])
              = map the_id (models c)"
    using nth same_id by (simp add: map_update) (metis list_update_id map_update nth)
  have oids: "map optimisticId ((models c)[nat (indexOf (models c) md) := model_set md r])
              = map optimisticId (models c)"
    using nth same_oid by (simp add: map_update) (metis list_update_id map_update nth)
  have pks: "\<forall>m \<in> set ((models c)[nat (indexOf (models c) md) := model_set md r]).
               primaryKey m = ''id''"
    using assms(1) pkm same_pk
    by (auto simp: default_pk_def dest!: set_update_subset_insert [THEN subsetD])
  have "getProp r ''id'' \<in> set (map the_id (models c))" using mem idm by force
  then show ?thesis
    unfolding set_step_found [OF Some prim]
    using assms(1) ids oids pks by (simp add: default_pk_def ins_def)
qed

lemma fold_set_step_ids:
  assumes "default_pk c" and "\<forall>r \<in> set R. has_id r"
  shows "length (models c) \<le> length (models (fst (fold (set_step defaultSet) R (c, n))))
       \<and> map optimisticId
           (take (length (models c)) (models (fst (fold (set_step defaultSet) R (c, n)))))
           = map optimisticId (models c)
       \<and> map the_id (models (fst (fold (set_step defaultSet) R (c, n))))
           = fold ins (map (\<lambda>r. getProp r ''id'') R) (map the_id (models c))"
  using assms
proof (induction R arbitrary: c n)
  case Nil then show ?case by simp
next
  case (Cons r R)
  obtain c1 n1 where s: "set_step defaultSet r (c, n) = (c1, n1)"
    by (cases "set_step defaultSet r (c, n)")
  from Cons.prems have hr: "has_id r" and hR: "\<forall>r \<in> set R. has_id r" by auto
  from set_step_ids [OF Cons.prems(1) hr, of n] s
  have d1: "default_pk c1" and l1: "length (models c) \<le> length (models c1)"
    and o1: "map optimisticId (take (length (models c)) (models c1)) = map optimisticId (models c)"
    and i1: "map the_id (models c1) = ins (getProp r ''id'') (map the_id (models c))"
    by auto
  let ?res = "models (fst (fold (set_step defaultSet) R (c1, n1)))"
  from Cons.IH [OF d1 hR, of n1]
  have l2: "length (models c1) \<le> length ?res"
    and o2: "map optimisticId (take (length (models c1)) ?res) = map optimisticId (models c1)"
    and i2: "map the_id ?res = fold ins (map (\<lambda>r. getProp r ''id'') R) (map the_id (models c1))"
    by auto
  have "take (length (models c)) ?res = take (length (models c)) (take (length (models c1)) ?res)"
    using l1 by (simp add: min_def)
  then have "map optimisticId (take (length (models c)) ?res)
      = take (length (models c)) (map optimisticId (take (length (models c1)) ?res))"
    by (simp add: take_map)
  also have "\<dots> = map optimisticId (take (length (models c)) (models c1))"
    by (simp add: o2 take_map)
  finally have o: "map optimisticId (take (length (models c)) ?res) = map optimisticId (models c)"
    using o1 by simp
  show ?case using l1 l2 o i2 i1 by (simp add: s)
qed

section \<open>The entity\<close>

text \<open>
  C4 (as amended). The \<open>id\<close> getter never throws. It returns the value of the primary-key
  attribute whenever that attribute is present in the working state, whatever the value
  (also a falsy one such as 0, null or the empty string), and the construction-time
  \<open>optimisticId\<close> only when the attribute is absent.
\<close>

theorem id_is_primary_key_when_present:
  "model_id m =
     Inr (case map_of (attributes m) (primaryKey m) of
            Some v \<Rightarrow> v
          | None \<Rightarrow> JStr (optimisticId m))"
  by (auto simp: model_id_def get_def has_iff getProp_def split: option.splits)

theorem id_is_primary_key_when_present_witness:
  "model_id zeroIdModel = Inr (JNum 0)"
proof -
  have e: "map_of (attributes zeroIdModel) (primaryKey zeroIdModel) = Some (JNum 0)"
    by code_simp
  show ?thesis using id_is_primary_key_when_present [of zeroIdModel] unfolding e by simp
qed

text \<open>
  C4 as stated fails: the model constructed with \<open>{id: 0, name: "a"}\<close> has its primary-key
  attribute present with a falsy value, and its \<open>id\<close> is that value 0, not the
  \<open>optimisticId\<close>.
\<close>

theorem id_falsy_primary_key_counterexample:
  "has zeroIdModel (primaryKey zeroIdModel)
   \<and> \<not> truthy (getProp (attributes zeroIdModel) (primaryKey zeroIdModel))
   \<and> model_id zeroIdModel = Inr (JNum 0)
   \<and> model_id zeroIdModel \<noteq> Inr (JStr (optimisticId zeroIdModel))"
  by code_simp

text \<open>
  C10. \<open>isNew\<close> holds exactly when the primary-key attribute is absent from the working
  state or holds a falsy value. Hence an entity whose primary key is 0 or the empty string
  (any falsy value) is new: every request that \<open>save\<close> issues for it is a POST, and \<open>url()\<close>,
  when it returns, returns the bare root (of the model, or of the owning collection) with
  no \<open>/id\<close> segment.
\<close>

theorem isNew_falsy_primary_key:
  "(isNew m \<longleftrightarrow>
      (case map_of (attributes m) (primaryKey m) of None \<Rightarrow> True | Some v \<Rightarrow> \<not> truthy v))
   \<and> (map_of (attributes m) (primaryKey m) = Some v \<and> \<not> truthy v \<longrightarrow>
        isNew m
        \<and> (\<forall>attrs opts m' req cl.
              save c m attrs opts = (m', Inr (req, cl)) \<longrightarrow> verb req = Post)
        \<and> (\<forall>u. url c m = Inr u \<longrightarrow> urlRoot m = Some u \<or> coll_url c = Some u))"
proof (intro conjI allI impI)
  show "isNew m \<longleftrightarrow>
      (case map_of (attributes m) (primaryKey m) of None \<Rightarrow> True | Some v \<Rightarrow> \<not> truthy v)"
    by (rule isNew_iff)
next
  assume v: "map_of (attributes m) (primaryKey m) = Some v \<and> \<not> truthy v"
  then show new: "isNew m" by (simp add: isNew_iff)
  { fix attrs opts m' req cl
    assume "save c m attrs opts = (m', Inr (req, cl))"
    then show "verb req = Post" using new
      by (auto simp: save_def Let_def split: sum.splits) }
  { fix u assume "url c m = Inr u"
    then show "urlRoot m = Some u \<or> coll_url c = Some u"
      using url_new [OF new] by blast }
qed

theorem isNew_falsy_primary_key_witness:
  "isNew zeroIdModel
   \<and> verb (fst (projr (snd (save emptyCollection zeroIdModel None defaultSave)))) = Post
   \<and> url emptyCollection zeroIdModel = Inr ''/items''"
proof -
  have e: "map_of (attributes zeroIdModel) (primaryKey zeroIdModel) = Some (JNum 0)"
    by code_simp
  have s: "save emptyCollection zeroIdModel None defaultSave
             = (zeroIdModel,
                Inr (\<lparr>verb = Post, target = ''/items'',
                       payload = Some [(''id'', JNum 0), (''name'', JStr ''a'')]\<rparr>,
                     \<lparr>currentAttributes = [(''id'', JNum 0), (''name'', JStr ''a'')],
                      keepChangesFlag = False\<rparr>))"
    by code_simp
  have u: "url emptyCollection zeroIdModel = Inr ''/items''" by code_simp
  from isNew_falsy_primary_key [of zeroIdModel "JNum 0" emptyCollection] e
  have "isNew zeroIdModel" by simp
  then show ?thesis using s u by simp
qed

text \<open>
  C6. Whenever \<open>save\<close> hands a request to the transport (it does unless \<open>url()\<close> throws),
  the payload is: exactly the given attributes when \<open>patch\<close> is set, attributes were given
  and the entity is not new; the current \<open>changes\<close> when \<open>patch\<close> is set, no attributes were
  given and the entity is not new; and otherwise the attribute snapshot taken at the call
  merged with the given attributes. The verb is POST for a new entity, PATCH for an
  existing one with \<open>patch\<close>, PUT for an existing one without.
\<close>

theorem save_payload_and_verb:
  "case save c m attrs opts of
     (m', Inl e) \<Rightarrow> url c m' = Inl e
   | (m', Inr (req, cl)) \<Rightarrow>
       payload req =
         Some (if patch opts \<and> attrs \<noteq> None \<and> \<not> isNew m then the attrs
               else if patch opts \<and> attrs = None \<and> \<not> isNew m then changes m
               else spread (attributes m) (case attrs of Some a \<Rightarrow> a | None \<Rightarrow> []))
       \<and> verb req = (if isNew m then Post else if patch opts then Patch else Put)"
  by (auto simp: save_def Let_def toJS_def split: sum.splits option.splits)

theorem save_payload_and_verb_witness:
  "payload (fst (projr (snd (save emptyCollection persistedModel
       (Some [(''name'', JStr ''x'')]) defaultSave)))) = Some [(''name'', JStr ''x'')]
   \<and> verb (fst (projr (snd (save emptyCollection persistedModel
       (Some [(''name'', JStr ''x'')]) defaultSave)))) = Patch"
proof -
  have e: "save emptyCollection persistedModel (Some [(''name'', JStr ''x'')]) defaultSave
     = (persistedModel\<lparr>attributes := [(''id'', JNum 1), (''name'', JStr ''x'')]\<rparr>,
        Inr (\<lparr>verb = Patch, target = ''/items/1'', payload = Some [(''name'', JStr ''x'')]\<rparr>,
             \<lparr>currentAttributes = [(''id'', JNum 1)], keepChangesFlag = False\<rparr>))"
    by code_simp
  have n: "\<not> isNew persistedModel" by code_simp
  show ?thesis
    using save_payload_and_verb [where c = emptyCollection and m = persistedModel
        and attrs = "Some [(''name'', JStr ''x'')]" and opts = defaultSave]
    unfolding e by (simp add: n defaultSave_def)
qed

text \<open>
  C7. An entity is constructed (and thereby committed) with
  \<open>{id: 1, name: "a", meta: {x: 1, y: 2}}\<close>; the caller then changes only \<open>meta.y\<close> to 3.
  The \<open>changes\<close> getter returns exactly \<open>{meta: {y: 3}}\<close>: the nested diff holds the
  changed sub-key alone, not the whole \<open>meta\<close> object.
\<close>

theorem changes_nested_field_only:
  "changes
     (model_set (fst (new_Model ''id'' None 0 exampleCommitted []))
        [(''meta'', JObj [(''x'', JNum 1), (''y'', JNum 3)])])
   = [(''meta'', JObj [(''y'', JNum 3)])]"
  by code_simp



text \<open>
  C1 is not met by the code. The persisted entity \<open>{id: 1}\<close> is saved with the attributes
  \<open>{name: "x"}\<close>, optimistically; the request is a PATCH and the snapshot is \<open>{id: 1}\<close>. When
  the request fails, the failure callback merges the snapshot into the working state, so
  the key \<open>name\<close>, which the optimistic step added, stays: the working state is
  \<open>{id: 1, name: "x"}\<close>, not deep-equal to the snapshot.
\<close>

theorem save_failure_keeps_added_key:
  "snd (save emptyCollection persistedModel (Some [(''name'', JStr ''x'')]) defaultSave)
     = Inr (\<lparr>verb = Patch, target = ''/items/1'', payload = Some [(''name'', JStr ''x'')]\<rparr>,
            \<lparr>currentAttributes = [(''id'', JNum 1)], keepChangesFlag = False\<rparr>)
   \<and> attributes
        (save_catch \<lparr>currentAttributes = [(''id'', JNum 1)], keepChangesFlag = False\<rparr>
           (fst (save emptyCollection persistedModel (Some [(''name'', JStr ''x'')]) defaultSave)))
       = [(''id'', JNum 1), (''name'', JStr ''x'')]
   \<and> \<not> isEqual
        (JObj (attributes
           (save_catch \<lparr>currentAttributes = [(''id'', JNum 1)], keepChangesFlag = False\<rparr>
              (fst (save emptyCollection persistedModel (Some [(''name'', JStr ''x'')])
                      defaultSave)))))
        (JObj [(''id'', JNum 1)])"
  by code_simp

section \<open>The collection\<close>

text \<open>
  C5 is not met by the code. The collection's model class has the primary key \<open>uuid\<close>;
  the collection holds one member, built from \<open>{uuid: "a", name: "old"}\<close>, whose \<open>id\<close> is
  \<open>"a"\<close>. \<open>Collection.set\<close> with the resource \<open>{uuid: "a", name: "new"}\<close> reads the
  resource's field \<open>id\<close>, which is undefined: the member is removed as stale and a new
  member is built, instead of the member being matched and changed.
\<close>

theorem set_ignores_configured_primary_key:
  "map optimisticId (models (fst uuidCollection)) = [''i_1'']
   \<and> map the_id (models (fst uuidCollection)) = [JStr ''a'']
   \<and> map optimisticId
        (models (fst (collection_set (fst uuidCollection) (snd uuidCollection)
           [[(''uuid'', JStr ''a''), (''name'', JStr ''new'')]] defaultSet)))
       = [''i_2'']"
  by code_simp

text \<open>
  C8. Let a persisted entity be a member of the collection it refers to, and let \<open>url()\<close>
  resolve. \<open>destroy\<close> with \<open>optimistic\<close> set issues the DELETE request and leaves the
  collection without the entity (the other members in their order) already when it
  returns, before the request settles. When the request then fails, the failure callback
  appends the entity at the end of the member sequence, whatever the collection holds by
  then.
\<close>

theorem destroy_optimistic_removes_then_appends:
  assumes "m \<in> set (models c)" and "distinct (models c)"
    and "collection m = Some (cid c)" and "\<not> isNew m"
    and "url c m = Inr u"
  shows "destroy c m data True =
           ((c\<lparr>models := remove1 m (models c)\<rparr>, m\<lparr>collection := None\<rparr>),
            Inr (Some (\<lparr>verb = Del, target = u, payload = data\<rparr>,
                       \<lparr>ownedFlag = True, optimisticFlag = True\<rparr>)))
       \<and> m \<notin> set (remove1 m (models c))
       \<and> models (fst (destroy_catch \<lparr>ownedFlag = True, optimisticFlag = True\<rparr> c2 n m2))
           = models c2 @ [m2\<lparr>collection := Some (cid c2)\<rparr>]"
proof -
  have "destroy c m data True =
           ((c\<lparr>models := remove1 m (models c)\<rparr>, m\<lparr>collection := None\<rparr>),
            Inr (Some (\<lparr>verb = Del, target = u, payload = data\<rparr>,
                       \<lparr>ownedFlag = True, optimisticFlag = True\<rparr>)))"
    using assms by (simp add: destroy_def owner_def remove_instance_member)
  moreover have "m \<notin> set (remove1 m (models c))" using assms(2) by simp
  moreover have
    "models (fst (destroy_catch \<lparr>ownedFlag = True, optimisticFlag = True\<rparr> c2 n m2))
       = models c2 @ [m2\<lparr>collection := Some (cid c2)\<rparr>]"
    by (simp add: destroy_catch_def add_def build_def)
  ultimately show ?thesis by simp
qed

theorem destroy_optimistic_removes_then_appends_witness:
  "map the_id (models (fst (fst (destroy pairCollection firstMember None True)))) = [JNum 2]
   \<and> map the_id (models (fst (destroy_catch \<lparr>ownedFlag = True, optimisticFlag = True\<rparr>
         (fst (fst (destroy pairCollection firstMember None True))) 2
         (snd (fst (destroy pairCollection firstMember None True)))))) = [JNum 2, JNum 1]"
proof -
  have h1: "firstMember \<in> set (models pairCollection)" by code_simp
  have h2: "distinct (models pairCollection)" by code_simp
  have h3: "collection firstMember = Some (cid pairCollection)" by code_simp
  have h4: "\<not> isNew firstMember" by code_simp
  have h5: "url pairCollection firstMember = Inr ''/items/1''" by code_simp
  have r: "map the_id (remove1 firstMember (models pairCollection)) = [JNum 2]" by code_simp
  have i: "the_id firstMember = JNum 1" by code_simp
  have i': "the_id (firstMember\<lparr>collection := x\<rparr>) = the_id firstMember" for x
    by (simp add: the_id_eq)
  show ?thesis
    using destroy_optimistic_removes_then_appends [OF h1 h2 h3 h4 h5, of None
        "pairCollection\<lparr>models := remove1 firstMember (models pairCollection)\<rparr>" 2
        "firstMember\<lparr>collection := None\<rparr>"]
    by (simp add: r i i')
qed

text \<open>
  C3 (as amended). Let the collection and its members use the default primary key \<open>id\<close>,
  and let every incoming resource carry a primitive value under \<open>id\<close>. \<open>Collection.set\<close>
  with \<open>add\<close>, \<open>change\<close> and \<open>remove\<close> set removes exactly the members whose id is a truthy
  number or string that is not among the incoming ids (a member whose id is falsy, or
  neither a number nor a string, is kept even when no resource has its id). The members
  kept stay in front, the same objects with the same ids in their prior order. Behind
  them stands one new member for every incoming id that no member had, in the order in
  which these ids first occur in the incoming list.
\<close>

theorem set_reconciles_members:
  assumes "modelPrimaryKey c = ''id''"
    and "\<forall>m \<in> set (models c). primaryKey m = ''id''"
    and "\<forall>r \<in> set R. ''id'' \<in> set (keys r) \<and> isPrimitive (getProp r ''id'')"
  shows "let rids = map (\<lambda>r. getProp r ''id'') R;
             kept = filter (\<lambda>m. \<not> (truthy (the_id m) \<and> isNumberOrString (the_id m) \<and> the_id m \<notin> set rids)) (models c);
             result = models (fst (collection_set c n R defaultSet))
         in map optimisticId (take (length kept) result) = map optimisticId kept
          \<and> map the_id (take (length kept) result) = map the_id kept
          \<and> map the_id (drop (length kept) result)
              = uniq (filter (\<lambda>i. i \<notin> set (map the_id (models c))) rids)"
proof -
  let ?rids = "map (\<lambda>r. getProp r ''id'') R"
  let ?kept = "filter (\<lambda>m. \<not> stale ?rids m) (models c)"
  let ?c1 = "c\<lparr>models := ?kept\<rparr>"
  let ?res = "models (fst (fold (set_step defaultSet) R (?c1, n)))"
  have cs: "collection_set c n R defaultSet = fold (set_step defaultSet) R (?c1, n)"
    using removal_phase [of R c] by (simp add: collection_set_def defaultSet_def Let_def)
  have d: "default_pk ?c1" using assms(1,2) by (simp add: default_pk_def)
  have h: "\<forall>r \<in> set R. has_id r" using assms(3) by (simp add: has_id_def)
  have i': "map the_id ?res
      = map the_id ?kept @ uniq (filter (\<lambda>x. x \<notin> set (map the_id ?kept)) ?rids)"
    using fold_set_step_ids [OF d h, of n] by (simp add: fold_ins)
  have "filter (\<lambda>x. x \<notin> set (map the_id ?kept)) ?rids
      = filter (\<lambda>x. x \<notin> set (map the_id (models c))) ?rids"
  proof (rule filter_cong [OF refl])
    fix x assume x: "x \<in> set ?rids"
    have "x \<in> set (map the_id (models c)) \<Longrightarrow> x \<in> set (map the_id ?kept)"
    proof -
      assume "x \<in> set (map the_id (models c))"
      then obtain m where m: "m \<in> set (models c)" "the_id m = x" by auto
      with x have "\<not> stale ?rids m" by (simp add: stale_def)
      with m show ?thesis by force
    qed
    moreover have "x \<in> set (map the_id ?kept) \<Longrightarrow> x \<in> set (map the_id (models c))" by auto
    ultimately show "(x \<notin> set (map the_id ?kept)) = (x \<notin> set (map the_id (models c)))" by blast
  qed
  with i' have i'': "map the_id ?res
      = map the_id ?kept @ uniq (filter (\<lambda>x. x \<notin> set (map the_id (models c))) ?rids)"
    by simp
  have t: "map the_id (take (length ?kept) ?res) = map the_id ?kept"
    using arg_cong [OF i'', of "take (length ?kept)"] by (simp add: take_map)
  have dr: "map the_id (drop (length ?kept) ?res)
      = uniq (filter (\<lambda>x. x \<notin> set (map the_id (models c))) ?rids)"
    using arg_cong [OF i'', of "drop (length ?kept)"] by (simp add: drop_map)
  have o': "map optimisticId (take (length ?kept) ?res) = map optimisticId ?kept"
    using fold_set_step_ids [OF d h, of n] by simp
  show ?thesis
    using o' t dr unfolding cs stale_def Let_def by simp
qed

theorem set_reconciles_members_witness:
  "map optimisticId (take 2 (models (fst (collection_set (fst idCollection) (snd idCollection) incoming defaultSet)))) = [''i_1'', ''i_2'']
   \<and> map the_id (take 2 (models (fst (collection_set (fst idCollection) (snd idCollection) incoming defaultSet)))) = [JStr ''a'', JNum 0]
   \<and> map the_id (drop 2 (models (fst (collection_set (fst idCollection) (snd idCollection) incoming defaultSet)))) = [JStr ''c'']"
proof -
  have h1: "modelPrimaryKey (fst idCollection) = ''id''" by code_simp
  have h2: "\<forall>m \<in> set (models (fst idCollection)). primaryKey m = ''id''" by code_simp
  have h3: "\<forall>r \<in> set incoming. ''id'' \<in> set (keys r) \<and> isPrimitive (getProp r ''id'')" by code_simp
  have kl: "length (filter (\<lambda>m. \<not> (truthy (the_id m) \<and> isNumberOrString (the_id m)
              \<and> the_id m \<notin> set (map (\<lambda>r. getProp r ''id'') incoming))) (models (fst idCollection))) = 2"
    by code_simp
  have ko: "map optimisticId (filter (\<lambda>m. \<not> (truthy (the_id m) \<and> isNumberOrString (the_id m)
              \<and> the_id m \<notin> set (map (\<lambda>r. getProp r ''id'') incoming))) (models (fst idCollection))) = [''i_1'', ''i_2'']"
    by code_simp
  have ki: "map the_id (filter (\<lambda>m. \<not> (truthy (the_id m) \<and> isNumberOrString (the_id m)
              \<and> the_id m \<notin> set (map (\<lambda>r. getProp r ''id'') incoming))) (models (fst idCollection))) = [JStr ''a'', JNum 0]"
    by code_simp
  have ku: "uniq (filter (\<lambda>i. i \<notin> set (map the_id (models (fst idCollection))))
              (map (\<lambda>r. getProp r ''id'') incoming)) = [JStr ''c'']"
    by code_simp
  show ?thesis
    using set_reconciles_members [OF h1 h2 h3, of "snd idCollection", unfolded Let_def]
    unfolding kl ko ki ku .
qed

text \<open>
  C3 as stated fails: the collection holds members with the ids \<open>"a"\<close>, \<open>0\<close> and \<open>"b"\<close>;
  \<open>Collection.set\<close> with the empty resource list removes \<open>"a"\<close> and \<open>"b"\<close> but keeps the
  member with id 0, although 0 is not in the (empty) id set of the resources.
\<close>

theorem set_keeps_falsy_id_member_counterexample:
  "map the_id (models (fst idCollection)) = [JStr ''a'', JNum 0, JStr ''b'']
   \<and> JNum 0 \<notin> set (map (\<lambda>r. getProp r ''id'') [])
   \<and> map the_id (models (fst (collection_set (fst idCollection) (snd idCollection) [] defaultSet))) = [JNum 0]"
  by code_simp

section \<open>Diff and patch\<close>

lemma isArray_simps:
  "isArray (JObj d) = False" "isArray (JArr xs) = True"
  by (simp_all add: isArray_def)

lemma ownProps_simps:
  "ownProps (JObj d) = d" "(\<And>x. t \<noteq> JObj x) \<Longrightarrow> ownProps t = []"
proof -
  show "ownProps (JObj d) = d" by (simp add: ownProps_def)
  show "ownProps t = []" if "\<And>x. t \<noteq> JObj x"
    using that by (cases t) (fastforce simp: ownProps_def)+
qed

lemma readTarget_simps:
  "readTarget (JObj a) k = readProp a k" "(\<And>x. t \<noteq> JObj x) \<Longrightarrow> readTarget t k = JUndefined"
proof -
  show "readTarget (JObj a) k = readProp a k" by (simp add: readTarget_def)
  show "readTarget t k = JUndefined" if "\<And>x. t \<noteq> JObj x"
    using that by (cases t) (fastforce simp: readTarget_def)+
qed

lemma getProp_Nil: "getProp [] k = JUndefined"
  by (simp add: getProp_def)

lemma keys_Nil: "keys [] = []"
  by (simp add: keys_def)

lemma update_fresh: "k \<notin> fst ` set acc \<Longrightarrow> AList.update k v acc = acc @ [(k, v)]"
  by (induction acc) auto

lemma fold_setProp_fresh:
  "distinct ks \<Longrightarrow> ''__proto__'' \<notin> set ks \<Longrightarrow> set ks \<inter> fst ` set acc = {} \<Longrightarrow>
   fold (\<lambda>k d. setProp k (g k) d) ks acc = acc @ map (\<lambda>k. (k, g k)) ks"
proof (induction ks arbitrary: acc)
  case Nil then show ?case by simp
next
  case (Cons k ks)
  have s: "setProp k (g k) acc = acc @ [(k, g k)]"
    using Cons.prems by (auto simp: setProp_def update_fresh)
  have "set ks \<inter> fst ` set (acc @ [(k, g k)]) = {}" using Cons.prems by auto
  then have "fold (\<lambda>k d. setProp k (g k) d) ks (acc @ [(k, g k)])
               = (acc @ [(k, g k)]) @ map (\<lambda>k. (k, g k)) ks"
    using Cons.prems by (intro Cons.IH) auto
  then show ?case by (simp add: s)
qed

lemma fold_setProp_update:
  "''__proto__'' \<notin> set ks \<Longrightarrow>
   fold (\<lambda>k d. setProp k (g k) d) ks acc = fold (\<lambda>k d. AList.update k (g k) d) ks acc"
  by (rule fold_cong) (auto simp: setProp_def)

lemma getProp_own: "distinct (map fst s) \<Longrightarrow> (k, v) \<in> set s \<Longrightarrow> getProp s k = v"
  by (simp add: getProp_def)

lemma map_getProp_self:
  assumes "distinct (map fst s)"
  shows "map (\<lambda>k. (k, getProp s k)) (map fst s) = s"
proof -
  have "map (\<lambda>k. (k, getProp s k)) (map fst s) = map (\<lambda>kv. (fst kv, getProp s (fst kv))) s"
    by (simp add: comp_def)
  also have "\<dots> = map (\<lambda>kv. kv) s"
  proof (rule map_cong [OF refl])
    fix kv assume "kv \<in> set s"
    then have "getProp s (fst kv) = snd kv"
      using getProp_own [OF assms, of "fst kv" "snd kv"] by simp
    then show "(fst kv, getProp s (fst kv)) = kv" by simp
  qed
  finally show ?thesis by simp
qed

lemma fold_setProp_self:
  assumes "distinct (keys s)" and "''__proto__'' \<notin> set (keys s)"
    and "\<And>k. k \<in> set (keys s) \<Longrightarrow> g k = getProp s k"
  shows "fold (\<lambda>k d. setProp k (g k) d) (keys s) [] = s"
proof -
  have "fold (\<lambda>k d. setProp k (g k) d) (keys s) [] = fold (\<lambda>k d. setProp k (getProp s k) d) (keys s) []"
    by (rule fold_cong) (simp_all add: assms(3))
  also have "\<dots> = [] @ map (\<lambda>k. (k, getProp s k)) (keys s)"
    using assms(1,2) by (intro fold_setProp_fresh) auto
  also have "\<dots> = s" using map_getProp_self [of s] assms(1) unfolding keys_def by simp
  finally show ?thesis .
qed

lemma plainData_keys:
  "plainData (JObj s) \<Longrightarrow> distinct (keys s)"
  "plainData (JObj s) \<Longrightarrow> k \<in> set (keys s) \<Longrightarrow> k \<notin> set unsafeKeys"
  by (auto simp: keys_def)

lemma plainData_no_proto: "plainData (JObj s) \<Longrightarrow> ''__proto__'' \<notin> set (keys s)"
  using plainData_keys(2) [of s "''__proto__''"] by (auto simp: unsafeKeys_def)

lemma plainData_getProp: "plainData (JObj s) \<Longrightarrow> plainData (getProp s k)"
  using getProp_in_set [of s k] by auto

lemma deepmerge_unfold_obj:
  assumes "\<not> isArray t"
  shows "deepmerge t (JObj s) =
     JObj (fold (\<lambda>key destination.
                 setProp key
                   (if \<not> isMergeableObject (getProp s key) \<or> \<not> truthy (readTarget t key)
                    then cloneUnlessOtherwiseSpecified (getProp s key)
                    else deepmerge (readTarget t key) (getProp s key))
                   destination)
           (keys s)
           (if isMergeableObject t
            then fold (\<lambda>key destination.
                         setProp key (cloneUnlessOtherwiseSpecified (getProp (ownProps t) key))
                           destination)
                   (keys (ownProps t)) []
            else []))"
  by (subst deepmerge.simps) (simp only: isArray_simps ownProps_simps assms if_False simp_thms)

lemma deepmerge_arrays: "deepmerge (JArr xs) (JArr ys) = JArr ys"
  by (subst deepmerge.simps) (simp add: isArray_simps dontMergeArrays_def)

lemma deepmerge_mismatch:
  "isArray s \<noteq> isArray t \<Longrightarrow> deepmerge t s = cloneUnlessOtherwiseSpecified s"
  by (subst deepmerge.simps) simp

lemma clone_array: "cloneUnlessOtherwiseSpecified (JArr ys) = JArr ys"
  by (subst cloneUnlessOtherwiseSpecified.simps)
     (simp add: isMergeableObject_def emptyTarget_def isArray_simps deepmerge_arrays)

lemma clone_obj: "cloneUnlessOtherwiseSpecified (JObj s) = deepmerge (JObj []) (JObj s)"
  by (subst cloneUnlessOtherwiseSpecified.simps)
     (simp add: isMergeableObject_def emptyTarget_def isArray_simps)

lemma clone_not_mergeable: "\<not> isMergeableObject v \<Longrightarrow> cloneUnlessOtherwiseSpecified v = v"
  by (subst cloneUnlessOtherwiseSpecified.simps) simp


lemma readProp_own: "k \<in> set (keys a) \<Longrightarrow> readProp a k = getProp a k"
  by (auto simp: readProp_def getProp_def keys_def map_of_eq_None_iff split: option.splits)

lemma readProp_missing:
  "k \<notin> set (keys a) \<Longrightarrow> readProp a k = JUndefined \<or> readProp a k = JBuiltin k"
  by (simp add: readProp_def keys_def map_of_eq_None_iff [THEN iffD2])

lemma getProp_missing: "k \<notin> set (keys a) \<Longrightarrow> getProp a k = JUndefined"
  by (simp add: getProp_def keys_def map_of_eq_None_iff [THEN iffD2])

lemma clone_plainData:
  "plainData v \<Longrightarrow>
   cloneUnlessOtherwiseSpecified v = v \<and>
   (\<forall>t. (\<forall>x. t \<noteq> JObj x) \<longrightarrow> isMergeableObject v \<longrightarrow> deepmerge t v = v)"
proof (induction "size v" arbitrary: v rule: less_induct)
  case less
  have IHc: "cloneUnlessOtherwiseSpecified w = w" if "size w < size v" "plainData w" for w
    using less.hyps [OF that] by blast
  have IHd: "deepmerge t w = w"
    if "size w < size v" "plainData w" "\<And>x. t \<noteq> JObj x" "isMergeableObject w" for t w
    using less.hyps [OF that(1,2)] that(3,4) by blast
  show ?case
  proof (cases v)
    case (JObj s)
    have pd: "plainData (JObj s)" using less.prems JObj by simp
    have sz: "size (getProp s k) < size v" for k using size_getProp_less [of s k] JObj by simp
    have pk: "plainData (getProp s k)" for k by (rule plainData_getProp [OF pd])
    have dm: "deepmerge t (JObj s) = JObj s"
      if nt: "\<not> isArray t" and e: "ownProps t = []"
        and r: "\<And>k x. readTarget t k \<noteq> JObj x" for t
    proof -
      let ?X = "\<lambda>key. if \<not> isMergeableObject (getProp s key) \<or> \<not> truthy (readTarget t key)
                     then cloneUnlessOtherwiseSpecified (getProp s key)
                     else deepmerge (readTarget t key) (getProp s key)"
      have X: "?X k = getProp s k" for k
      proof (cases "\<not> isMergeableObject (getProp s k) \<or> \<not> truthy (readTarget t k)")
        case True then show ?thesis using IHc [OF sz pk] by simp
      next
        case False
        then have "deepmerge (readTarget t k) (getProp s k) = getProp s k"
          using IHd [where t = "readTarget t k" and w = "getProp s k", OF sz pk] r by blast
        then show ?thesis using False by simp
      qed
      have "deepmerge t (JObj s) =
              JObj (fold (\<lambda>key destination. setProp key (?X key) destination) (keys s) [])"
        by (simp add: deepmerge_unfold_obj [OF nt] e keys_Nil)
      also have "fold (\<lambda>key destination. setProp key (?X key) destination) (keys s) [] = s"
        by (rule fold_setProp_self [OF plainData_keys(1) [OF pd] plainData_no_proto [OF pd]])
           (rule X)
      finally show ?thesis .
    qed
    have c: "cloneUnlessOtherwiseSpecified (JObj s) = JObj s"
      unfolding clone_obj
      by (rule dm) (simp_all add: isArray_simps ownProps_simps readTarget_simps readProp_def)
    have d: "deepmerge t (JObj s) = JObj s" if "\<And>x. t \<noteq> JObj x" for t
    proof (cases "isArray t")
      case True
      then show ?thesis using c by (simp add: deepmerge_mismatch isArray_simps)
    next
      case False
      then show ?thesis
        by (rule dm) (simp_all add: ownProps_simps(2) [OF that] readTarget_simps(2) [OF that])
    qed
    show ?thesis using c d unfolding JObj by blast
  next
    case (JArr ys)
    have "deepmerge t (JArr ys) = JArr ys" for t
    proof (cases t)
      case (JArr xs) then show ?thesis by (simp add: deepmerge_arrays)
    qed (simp_all add: deepmerge_mismatch isArray_def clone_array)
    then show ?thesis unfolding JArr by (simp add: clone_array)
  next
    case (JBuiltin k)
    then show ?thesis using less.prems by simp
  qed (simp_all add: clone_not_mergeable isMergeableObject_def)
qed

lemma deepmerge_plain:
  assumes "plainData v" and "isMergeableObject v" and "\<not> (\<exists>s t. tgt = JObj s \<and> v = JObj t)"
  shows "deepmerge tgt v = v"
proof (cases "\<exists>s. tgt = JObj s")
  case True
  then obtain s where s: "tgt = JObj s" by blast
  with assms obtain ys where "v = JArr ys"
    by (cases v) (simp_all add: isMergeableObject_def)
  then show ?thesis by (simp add: s deepmerge_mismatch isArray_simps clone_array)
next
  case False
  then show ?thesis using clone_plainData [OF assms(1)] assms(2) by blast
qed



lemma applyPatchChanges_plain:
  assumes "plainData (JObj a)"
  shows "applyPatchChanges a d =
     fold (\<lambda>key destination.
             setProp key
               (if \<not> isMergeableObject (getProp d key) \<or> \<not> truthy (readProp a key)
                then cloneUnlessOtherwiseSpecified (getProp d key)
                else deepmerge (readProp a key) (getProp d key))
               destination)
       (keys d) a"
proof -
  have dest: "fold (\<lambda>key destination.
                     setProp key (cloneUnlessOtherwiseSpecified (getProp a key)) destination)
                (keys a) [] = a"
    by (rule fold_setProp_self [OF plainData_keys(1) [OF assms] plainData_no_proto [OF assms]])
       (simp add: clone_plainData [OF plainData_getProp [OF assms]])
  have m: "isMergeableObject (JObj a)" by (simp add: isMergeableObject_def)
  show ?thesis
    by (simp add: applyPatchChanges_def deepmerge_unfold_obj isArray_simps ownProps_simps
          readTarget_simps m dest cong: if_cong)
qed

lemma distinct_uniq: "distinct (uniq xs)"
  by (simp add: uniq_def)

lemma distinct_changed: "distinct (getChangedAttributesBetween a b)"
  by (simp add: getChangedAttributesBetween_def union_list_def distinct_uniq)

lemma set_changed:
  "set (getChangedAttributesBetween a b) =
     {k \<in> set (keys a) \<union> set (keys b). \<not> isEqual (readProp a k) (readProp b k)}"
  by (auto simp: getChangedAttributesBetween_def union_list_def set_uniq)

lemma getChangesBetween_map:
  assumes "''__proto__'' \<notin> set (getChangedAttributesBetween a b)"
  shows "getChangesBetween a b =
     map (\<lambda>key. (key,
            if isPlainObject (readProp a key) \<and> isPlainObject (readProp b key)
            then JObj (getChangesBetween (ownProps (readProp a key)) (ownProps (readProp b key)))
            else readProp b key))
       (getChangedAttributesBetween a b)"
  by (subst getChangesBetween.simps)
     (simp add: fold_setProp_fresh [OF distinct_changed assms, of "[]"])

lemma map_of_map_keys:
  "map_of (map (\<lambda>k. (k, f k)) ks) k = (if k \<in> set ks then Some (f k) else None)"
  by (induction ks) auto

lemma keys_getChangesBetween:
  "''__proto__'' \<notin> set (getChangedAttributesBetween a b) \<Longrightarrow>
   keys (getChangesBetween a b) = getChangedAttributesBetween a b"
  by (subst getChangesBetween_map) (simp_all add: keys_def comp_def)

lemma getProp_getChangesBetween:
  "''__proto__'' \<notin> set (getChangedAttributesBetween a b) \<Longrightarrow>
   k \<in> set (getChangedAttributesBetween a b) \<Longrightarrow>
   getProp (getChangesBetween a b) k =
     (if isPlainObject (readProp a k) \<and> isPlainObject (readProp b k)
      then JObj (getChangesBetween (ownProps (readProp a k)) (ownProps (readProp b k)))
      else readProp b k)"
  by (subst getChangesBetween_map) (simp_all add: getProp_def [of "map _ _"] map_of_map_keys)

lemma distinct_fold_update:
  "distinct (keys m) \<Longrightarrow> distinct (keys (fold (\<lambda>key acc. AList.update key (f key) acc) ks m))"
  by (induction ks arbitrary: m) (auto simp: keys_def distinct_update)

lemma getProp_fold_update:
  "getProp (fold (\<lambda>key acc. AList.update key (f key) acc) ks m) k =
     (if k \<in> set ks then f k else getProp m k)"
  by (simp add: getProp_def map_of_fold_update)

lemma isEqual_objI:
  assumes "distinct (keys r)" and "distinct (keys b)" and "set (keys r) = set (keys b)"
    and "\<And>k. k \<in> set (keys b) \<Longrightarrow> isEqual (getProp r k) (getProp b k)"
  shows "isEqual (JObj r) (JObj b)"
proof -
  have "length (keys r) = length (keys b)"
    using assms(1-3) by (metis distinct_card)
  then show ?thesis using assms(3,4) by simp
qed

lemma case_both_objects:
  "(case x of JObj s \<Rightarrow> (case y of JObj t \<Rightarrow> P s t | _ \<Rightarrow> True) | _ \<Rightarrow> True)
     \<longleftrightarrow> (\<forall>s t. x = JObj s \<longrightarrow> y = JObj t \<longrightarrow> P s t)"
  by (cases x; cases y; simp)

lemma retainsKeys_unfold:
  "retainsKeys a b \<longleftrightarrow>
     set (keys a) \<subseteq> set (keys b) \<and>
     (\<forall>k \<in> set (keys b).
        (k \<in> set (keys a) \<or> getProp b k \<noteq> JUndefined) \<and>
        (\<forall>s t. getProp a k = JObj s \<longrightarrow> getProp b k = JObj t \<longrightarrow> retainsKeys s t))"
  by (subst retainsKeys.simps) (simp only: case_both_objects)

lemma isPlainObject_plain: "plainData v \<Longrightarrow> isPlainObject v \<longleftrightarrow> (\<exists>s. v = JObj s)"
  by (cases v) (simp_all add: isPlainObject_def)

lemma not_isEqual_missing:
  "plainData bv \<Longrightarrow> bv \<noteq> JUndefined \<Longrightarrow> k \<noteq> ''__proto__'' \<Longrightarrow>
   av = JUndefined \<or> av = JBuiltin k \<Longrightarrow> \<not> isEqual av bv"
  by (cases bv) auto

lemma no_proto_changed:
  assumes "plainData (JObj a)" and "plainData (JObj b)"
  shows "''__proto__'' \<notin> set (getChangedAttributesBetween a b)"
  using changed_subset [of "''__proto__''" a b] plainData_no_proto [OF assms(1)]
    plainData_no_proto [OF assms(2)] by blast

lemma patch_roundtrip:
  "plainData (JObj a) \<Longrightarrow> plainData (JObj b) \<Longrightarrow> retainsKeys a b \<Longrightarrow>
   isEqual (JObj (applyPatchChanges a (getChangesBetween a b))) (JObj b)"
proof (induction a b rule: getChangesBetween.induct)
  case (1 a b)
  let ?ch = "getChangedAttributesBetween a b"
  let ?d = "getChangesBetween a b"
  let ?X = "\<lambda>key. if \<not> isMergeableObject (getProp ?d key) \<or> \<not> truthy (readProp a key)
                then cloneUnlessOtherwiseSpecified (getProp ?d key)
                else deepmerge (readProp a key) (getProp ?d key)"
  let ?r = "fold (\<lambda>key dest. AList.update key (?X key) dest) ?ch a"
  have pa: "plainData (JObj a)" and pb: "plainData (JObj b)" using "1.prems" by blast+
  have da: "distinct (keys a)" and db: "distinct (keys b)"
    using pa pb by (simp_all add: keys_def)
  have np: "''__proto__'' \<notin> set ?ch" by (rule no_proto_changed [OF pa pb])
  have kd: "keys ?d = ?ch" by (rule keys_getChangesBetween [OF np])
  have "applyPatchChanges a ?d = fold (\<lambda>key dest. setProp key (?X key) dest) ?ch a"
    by (simp add: applyPatchChanges_plain [OF pa] kd)
  also have "\<dots> = ?r" by (rule fold_setProp_update [OF np])
  finally have r: "applyPatchChanges a ?d = ?r" .
  from retainsKeys_unfold [THEN iffD1, OF "1.prems"(3)]
  have sub: "set (keys a) \<subseteq> set (keys b)"
    and defined: "\<And>k. k \<in> set (keys b) \<Longrightarrow> k \<notin> set (keys a) \<Longrightarrow> getProp b k \<noteq> JUndefined"
    and nested: "\<And>k s t. k \<in> set (keys b) \<Longrightarrow> getProp a k = JObj s \<Longrightarrow> getProp b k = JObj t
                   \<Longrightarrow> retainsKeys s t"
    by blast+
  have kp: "k \<noteq> ''__proto__''" if "k \<in> set (keys b)" for k
    using that plainData_no_proto [OF pb] by blast
  have added: "\<not> isEqual (readProp a k) (getProp b k)"
    if "k \<in> set (keys b)" "k \<notin> set (keys a)" for k
    by (rule not_isEqual_missing [OF plainData_getProp [OF pb] defined [OF that] kp [OF that(1)]
          readProp_missing [OF that(2)]])
  show ?case unfolding r
  proof (rule isEqual_objI)
    show "distinct (keys ?r)" using da by (rule distinct_fold_update)
    show "distinct (keys b)" by fact
    show "set (keys ?r) = set (keys b)"
    proof -
      have "k \<in> set ?ch" if "k \<in> set (keys b)" "k \<notin> set (keys a)" for k
        using that added [OF that] by (simp add: set_changed readProp_own)
      then show ?thesis using sub by (auto simp: keys_fold_update set_changed)
    qed
  next
    fix k assume kb: "k \<in> set (keys b)"
    have rb: "readProp b k = getProp b k" by (rule readProp_own [OF kb])
    have pbv: "plainData (getProp b k)" by (rule plainData_getProp [OF pb])
    show "isEqual (getProp ?r k) (getProp b k)"
    proof (cases "k \<in> set ?ch")
      case False
      then have e: "isEqual (readProp a k) (getProp b k)" using kb by (simp add: set_changed rb)
      then have "k \<in> set (keys a)" using added [OF kb] by blast
      then show ?thesis using False e by (simp add: getProp_fold_update readProp_own)
    next
      case True
      then have g: "getProp ?r k = ?X k" by (simp add: getProp_fold_update)
      show ?thesis
      proof (cases "\<exists>s t. readProp a k = JObj s \<and> getProp b k = JObj t")
        case both: True
        then obtain s t where s: "readProp a k = JObj s" and t: "getProp b k = JObj t" by blast
        have ka: "k \<in> set (keys a)" using readProp_missing [of k a] s by auto
        then have s': "getProp a k = JObj s" using s by (simp add: readProp_own)
        have po: "isPlainObject (readProp a k) \<and> isPlainObject (readProp b k)"
          by (simp add: s t rb isPlainObject_def)
        have dk: "getProp ?d k = JObj (getChangesBetween s t)"
          using getProp_getChangesBetween [OF np True] po by (simp add: s t rb ownProps_simps)
        have us: "plainData (JObj s)" using plainData_getProp [OF pa, of k] s' by simp
        have ut: "plainData (JObj t)" using pbv t by simp
        have "isEqual (JObj (applyPatchChanges s (getChangesBetween s t))) (JObj t)"
          using "1.IH" [OF True po] us ut nested [OF kb s' t]
          by (simp add: s t rb ownProps_simps)
        moreover have "?X k = JObj (applyPatchChanges s (getChangesBetween s t))"
        proof -
          have "?X k = deepmerge (JObj s) (JObj (getChangesBetween s t))"
            by (simp add: dk s isMergeableObject_def)
          also have "\<dots> = JObj (applyPatchChanges s (getChangesBetween s t))"
            by (simp add: applyPatchChanges_def deepmerge_unfold_obj isArray_simps ownProps_simps)
          finally show ?thesis .
        qed
        ultimately show ?thesis by (simp only: g t)
      next
        case False
        have av: "plainData (readProp a k) \<or> readProp a k = JBuiltin k"
        proof (cases "k \<in> set (keys a)")
          case True
          then show ?thesis using plainData_getProp [OF pa, of k] by (simp add: readProp_own)
        next
          case False
          then show ?thesis using readProp_missing [OF False] by auto
        qed
        have "isPlainObject (readProp a k) \<longleftrightarrow> (\<exists>s. readProp a k = JObj s)"
        proof (cases "plainData (readProp a k)")
          case True
          then show ?thesis by (rule isPlainObject_plain)
        next
          case False
          then have "readProp a k = JBuiltin k" using av by blast
          then show ?thesis using kp [OF kb] by (simp add: isPlainObject_def)
        qed
        then have npo: "\<not> (isPlainObject (readProp a k) \<and> isPlainObject (readProp b k))"
          using False by (simp add: rb isPlainObject_plain [OF pbv])
        have dk: "getProp ?d k = getProp b k"
          unfolding getProp_getChangesBetween [OF np True] using npo rb by auto
        have "?X k = getProp b k"
        proof (cases "\<not> isMergeableObject (getProp b k) \<or> \<not> truthy (readProp a k)")
          case True
          then show ?thesis using clone_plainData [OF pbv] by (simp add: dk)
        next
          case merge: False
          then have "deepmerge (readProp a k) (getProp b k) = getProp b k"
            using deepmerge_plain [OF pbv, of "readProp a k"] False by blast
          then show ?thesis using merge by (simp add: dk)
        qed
        then show ?thesis by (simp only: g isEqual_refl)
      qed
    qed
  qed
qed

lemma getChangesBetween_array:
  assumes "plainData (JObj a)" and "plainData (JObj b)"
    and "k \<in> set (getChangedAttributesBetween a b)" and "getProp b k = JArr ys"
  shows "getProp (getChangesBetween a b) k = JArr ys"
proof -
  have "k \<in> set (keys b)" using getProp_missing [of k b] assms(4) by auto
  then have "readProp b k = JArr ys" using assms(4) by (simp add: readProp_own)
  then show ?thesis
    using getProp_getChangesBetween [OF no_proto_changed [OF assms(1,2)] assms(3)]
    by (simp add: isPlainObject_def)
qed




end
